theory Spec2Isabelle
  imports Complex_Main
begin

section \<open>Python values, errors and numpy arrays\<close>

text \<open>
  The module \<^verbatim>\<open>monailabel/deepedit/transforms.py\<close> is embedded function by function.
  Every exception the Python raises is a value: a function that can raise returns
  \<open>error + 'a\<close>, with \<open>Inl\<close> for the exception.  Floating point numbers are real numbers
  here, without rounding.  Where the code can produce an infinity or a NaN this is written
  out: \<^verbatim>\<open>np.exp\<close> overflows above \<open>exp_max_arg\<close>, a sum overflows above \<open>dbl_max\<close>, a
  division by zero gives NaN or an infinity, and \<^verbatim>\<open>RandomState.choice\<close> rejects every
  such probability vector with the \<open>ValueError\<close> that the model returns in its place.
\<close>

datatype error = IndexError | KeyError | ValueError | TypeError | AttributeError

definition bind_err :: "error + 'a \<Rightarrow> ('a \<Rightarrow> error + 'b) \<Rightarrow> error + 'b" where
  "bind_err m f = (case m of Inl e \<Rightarrow> Inl e | Inr x \<Rightarrow> f x)"

text \<open>
  A numpy array: its shape and its elements in C order (what \<^verbatim>\<open>flatten()\<close> returns).
  A well-formed array has \<open>length (flat a) = prod_list (shape a)\<close>.
\<close>

record ndarray =
  shape :: "nat list"
  flat :: "real list"

definition wf_array :: "ndarray \<Rightarrow> bool" where
  "wf_array a = (length (flat a) = prod_list (shape a))"

text \<open>\<^verbatim>\<open>a[k]\<close> for a Python integer \<open>k\<close>: negative indices count from the end.\<close>

definition py_index :: "int \<Rightarrow> nat \<Rightarrow> error + nat" where
  "py_index k n =
     (if 0 \<le> k \<and> k < int n then Inr (nat k)
      else if k < 0 \<and> - int n \<le> k then Inr (nat (int n + k))
      else Inl IndexError)"

text \<open>\<^verbatim>\<open>a[k]\<close> on an array: the sub-array at position \<open>k\<close> of axis 0.\<close>

definition getitem :: "ndarray \<Rightarrow> int \<Rightarrow> error + ndarray" where
  "getitem a k =
     (case shape a of
        [] \<Rightarrow> Inl IndexError
      | n # rest \<Rightarrow>
          bind_err (py_index k n) (\<lambda>j.
            Inr \<lparr>shape = rest,
                 flat = take (prod_list rest) (drop (j * prod_list rest) (flat a))\<rparr>))"

text \<open>\<^verbatim>\<open>np.unravel_index(i, shape)\<close> in C order; numpy raises for an index out of bounds.\<close>

fun unravel :: "nat \<Rightarrow> nat list \<Rightarrow> nat list" where
  "unravel i [] = []"
| "unravel i (n # ns) = (i div prod_list ns) # unravel (i mod prod_list ns) ns"

definition unravel_index :: "nat \<Rightarrow> nat list \<Rightarrow> error + nat list" where
  "unravel_index i s = (if i < prod_list s then Inr (unravel i s) else Inl ValueError)"

fun ravel_multi_index :: "nat list \<Rightarrow> nat list \<Rightarrow> nat" where
  "ravel_multi_index (k # ks) (n # ns) = k * prod_list ns + ravel_multi_index ks ns"
| "ravel_multi_index _ _ = 0"

text \<open>
  \<^verbatim>\<open>a * b\<close> with numpy's broadcasting: shapes are aligned at their last axis, two
  extents are compatible when they are equal or one of them is 1.
\<close>

fun broadcast_rev :: "nat list \<Rightarrow> nat list \<Rightarrow> nat list option" where
  "broadcast_rev [] ys = Some ys"
| "broadcast_rev (x # xs) [] = Some (x # xs)"
| "broadcast_rev (x # xs) (y # ys) =
     (if x = y \<or> y = 1 then map_option ((#) x) (broadcast_rev xs ys)
      else if x = 1 then map_option ((#) y) (broadcast_rev xs ys)
      else None)"

definition broadcast_shapes :: "nat list \<Rightarrow> nat list \<Rightarrow> nat list option" where
  "broadcast_shapes s t = map_option rev (broadcast_rev (rev s) (rev t))"

definition project_index :: "nat list \<Rightarrow> nat list \<Rightarrow> nat list" where
  "project_index m s =
     map2 (\<lambda>k n. if n = 1 then 0 else k) (drop (length m - length s) m) s"

definition np_multiply :: "ndarray \<Rightarrow> ndarray \<Rightarrow> error + ndarray" where
  "np_multiply a b =
     (case broadcast_shapes (shape a) (shape b) of
        None \<Rightarrow> Inl ValueError
      | Some rs \<Rightarrow>
          Inr \<lparr>shape = rs,
               flat = map (\<lambda>i. flat a ! ravel_multi_index (project_index (unravel i rs) (shape a)) (shape a)
                              * flat b ! ravel_multi_index (project_index (unravel i rs) (shape b)) (shape b))
                          [0..<prod_list rs]\<rparr>)"

text \<open>
  Python lists of numbers, nested to any depth (a guidance is a list of two lists of
  points, a point a list of numbers).  A bare number is a \<open>Leaf\<close>.
\<close>

datatype 'a nested = Leaf 'a | Node "'a nested list"

fun leaves :: "'a nested \<Rightarrow> 'a list" where
  "leaves (Leaf x) = [x]"
| "leaves (Node xs) = concat (map leaves xs)"

text \<open>
  The shape \<^verbatim>\<open>np.asarray\<close> finds in a nested list, \<open>None\<close> when the list is
  ragged (numpy then raises, or builds an array of objects that \<^verbatim>\<open>astype(int)\<close>
  rejects).
\<close>

fun nested_shape :: "'a nested \<Rightarrow> nat list option" where
  "nested_shape (Leaf x) = Some []"
| "nested_shape (Node xs) =
     (case map nested_shape xs of
        [] \<Rightarrow> Some [0]
      | s # ss \<Rightarrow>
          (case s of
             None \<Rightarrow> None
           | Some t \<Rightarrow> if list_all (\<lambda>u. u = Some t) ss then Some (length xs # t) else None))"

text \<open>
  The values a data record holds under its keys, as far as the guidance transforms read
  them: numpy arrays, strings, numbers and nested lists of numbers, booleans.  The
  discrepancy is a numpy array, as the docstring of the class says; another value under
  its key is rejected with \<open>TypeError\<close> where the code first indexes it.
\<close>

datatype pyval = PArray ndarray | PStr string | PList "real nested" | PBool bool

type_synonym pydict = "string \<Rightarrow> pyval option"

text \<open>\<^verbatim>\<open>np.asarray(v)\<close> for an operand of numpy arithmetic.\<close>

definition as_ndarray :: "pyval \<Rightarrow> error + ndarray" where
  "as_ndarray v =
     (case v of
        PArray a \<Rightarrow> Inr a
      | PList l \<Rightarrow>
          (case nested_shape l of
             None \<Rightarrow> Inl ValueError
           | Some s \<Rightarrow> Inr \<lparr>shape = s, flat = leaves l\<rparr>)
      | PBool b \<Rightarrow> Inr \<lparr>shape = [], flat = [of_bool b]\<rparr>
      | PStr s \<Rightarrow> Inl TypeError)"











section \<open>The library functions the sampler calls\<close>

text \<open>
  \<^verbatim>\<open>scipy.ndimage.distance_transform_cdt\<close> and \<^verbatim>\<open>numpy.random.RandomState\<close> are not
  part of this repository.  The sampler below takes the distance transform as a parameter
  \<open>cdt\<close>; \<open>distance_transform_cdt\<close> is the function scipy computes with its default
  chessboard metric: every non-zero voxel (the foreground) gets its chessboard distance to
  the nearest zero voxel, every zero voxel gets 0.  scipy starts from \<open>-1\<close> on the
  foreground and relaxes from the zero voxels, so an array with no zero voxel keeps \<open>-1\<close>
  everywhere.
\<close>

definition chebyshev :: "nat list \<Rightarrow> nat list \<Rightarrow> nat" where
  "chebyshev p q = foldr max (map2 (\<lambda>a b. (a - b) + (b - a)) p q) 0"

definition distance_transform_cdt :: "ndarray \<Rightarrow> ndarray" where
  "distance_transform_cdt input =
     (let n = length (flat input);
          background = filter (\<lambda>j. flat input ! j = 0) [0..<n]
      in \<lparr>shape = shape input,
          flat = map (\<lambda>i. if background = [] then - 1
                          else real (foldr min
                                 (map (\<lambda>j. chebyshev (unravel i (shape input))
                                                     (unravel j (shape input))) background)
                                 (chebyshev (unravel i (shape input))
                                            (unravel (hd background) (shape input)))))
                     [0..<n]\<rparr>)"

text \<open>
  The random state \<^verbatim>\<open>self.R\<close> is the stream of uniform numbers in \<open>[0, 1)\<close> it is going
  to produce.  \<^verbatim>\<open>R.choice(a, p=p)\<close> checks \<open>p\<close> (no negative entry, sum 1), draws one
  uniform number \<open>u\<close> and returns \<open>a[k]\<close> for the first \<open>k\<close> whose cumulative
  probability exceeds \<open>u\<close> (\<^verbatim>\<open>cdf.searchsorted(u, side='right')\<close>).  A rejected \<open>p\<close>
  raises before anything is drawn.
\<close>

type_synonym rstate = "nat \<Rightarrow> real"

fun cumsum :: "real \<Rightarrow> real list \<Rightarrow> real list" where
  "cumsum acc [] = []"
| "cumsum acc (x # xs) = (acc + x) # cumsum (acc + x) xs"

definition searchsorted_right :: "real list \<Rightarrow> real \<Rightarrow> nat" where
  "searchsorted_right cdf u = length (takeWhile (\<lambda>c. c \<le> u) cdf)"

definition choice :: "rstate \<Rightarrow> 'a list \<Rightarrow> real list \<Rightarrow> (error + 'a) \<times> rstate" where
  "choice rs a p =
     (if a = [] \<or> length p \<noteq> length a \<or> list_ex (\<lambda>x. x < 0) p \<or> sum_list p \<noteq> 1
      then (Inl ValueError, rs)
      else if searchsorted_right (cumsum 0 p) (rs 0) < length a
      then (Inr (a ! searchsorted_right (cumsum 0 p) (rs 0)), \<lambda>n. rs (Suc n))
      else (Inl IndexError, \<lambda>n. rs (Suc n)))"

text \<open>
  The floating point numbers of the sampler are 64-bit: the largest of them is
  \<open>dbl_max\<close>, and \<^verbatim>\<open>np.exp\<close> returns infinity for an argument above the logarithm of
  \<open>dbl_max\<close>, which is \<open>709.782712893384\<close> to twelve decimals.  \<open>overflows xs\<close>: for the
  weighted distances \<open>xs\<close> of the selected voxels, one of the weights \<open>exp x - 1\<close> or their
  sum is infinite.  The quotients \<^verbatim>\<open>probability[idx] / np.sum(probability[idx])\<close> are then
  0 or NaN, and \<^verbatim>\<open>R.choice\<close> raises \<open>ValueError\<close> (NaN, or a sum that is not 1).
\<close>

definition dbl_max :: real where
  "dbl_max = 2 ^ 1024 - 2 ^ 971"

definition exp_max_arg :: real where
  "exp_max_arg = 709782712893384 / 1000000000000"

definition overflows :: "real list \<Rightarrow> bool" where
  "overflows xs =
     (list_ex (\<lambda>x. x > exp_max_arg) xs \<or> sum_list (map (\<lambda>x. exp x - 1) xs) > dbl_max)"

section \<open>AddRandomGuidanced and PosNegClickProbAddRandomGuidanced: the sampler\<close>

text \<open>
  \<^verbatim>\<open>find_guidance(self, discrepancy, weight_map)\<close>, lines 128-141 and 225-238.  It returns
  the list \<open>g\<close> or \<open>None\<close>, and the random state after the draw.
  \<^verbatim>\<open>probability[idx]\<close> raises when an index is out of bounds; an overflow or a sum of
  zero makes the division produce NaN or zeros, which \<^verbatim>\<open>R.choice\<close> rejects.
\<close>

definition arg_find_guidance ::
  "(ndarray \<Rightarrow> ndarray) \<Rightarrow> rstate \<Rightarrow> ndarray \<Rightarrow> pyval option
     \<Rightarrow> (error + real list option) \<times> rstate" where
  "arg_find_guidance cdt rs discrepancy weight_map =
     (let distance = cdt discrepancy in
      case (case weight_map of
              Some w \<Rightarrow> map_sum id flat (bind_err (as_ndarray w) (np_multiply distance))
            | None \<Rightarrow> Inr (flat distance)) of
        Inl e \<Rightarrow> (Inl e, rs)
      | Inr weighted_distance \<Rightarrow>
          (let probability = map (\<lambda>x. exp x - 1) weighted_distance;
               idx = filter (\<lambda>i. flat discrepancy ! i > 0) [0..<length (flat discrepancy)]
           in if length (filter (\<lambda>v. v > 0) (flat discrepancy)) > 0 then
                if list_ex (\<lambda>i. length probability \<le> i) idx then (Inl IndexError, rs)
                else if overflows (map ((!) weighted_distance) idx) then (Inl ValueError, rs)
                else if sum_list (map ((!) probability) idx) = 0 then (Inl ValueError, rs)
                else
                  (case choice rs idx
                          (map (\<lambda>i. probability ! i / sum_list (map ((!) probability) idx)) idx) of
                     (Inl e, rs') \<Rightarrow> (Inl e, rs')
                   | (Inr seed, rs') \<Rightarrow>
                       (let dst = weighted_distance ! seed in
                        case unravel_index seed (shape discrepancy) of
                          Inl e \<Rightarrow> (Inl e, rs')
                        | Inr [] \<Rightarrow> (Inl IndexError, rs')
                        | Inr (g0 # g) \<Rightarrow> (Inr (Some (dst # map real g)), rs')))
              else (Inr None, rs)))"

definition pnc_find_guidance ::
  "(ndarray \<Rightarrow> ndarray) \<Rightarrow> rstate \<Rightarrow> ndarray \<Rightarrow> pyval option
     \<Rightarrow> (error + real list option) \<times> rstate" where
  "pnc_find_guidance cdt rs discrepancy weight_map =
     (let distance = cdt discrepancy in
      case (case weight_map of
              Some w \<Rightarrow> map_sum id flat (bind_err (as_ndarray w) (np_multiply distance))
            | None \<Rightarrow> Inr (flat distance)) of
        Inl e \<Rightarrow> (Inl e, rs)
      | Inr weighted_distance \<Rightarrow>
          (let probability = map (\<lambda>x. exp x - 1) weighted_distance;
               idx = filter (\<lambda>i. flat discrepancy ! i > 0) [0..<length (flat discrepancy)]
           in if length (filter (\<lambda>v. v > 0) (flat discrepancy)) > 0 then
                if list_ex (\<lambda>i. length probability \<le> i) idx then (Inl IndexError, rs)
                else if overflows (map ((!) weighted_distance) idx) then (Inl ValueError, rs)
                else if sum_list (map ((!) probability) idx) = 0 then (Inl ValueError, rs)
                else
                  (case choice rs idx
                          (map (\<lambda>i. probability ! i / sum_list (map ((!) probability) idx)) idx) of
                     (Inl e, rs') \<Rightarrow> (Inl e, rs')
                   | (Inr seed, rs') \<Rightarrow>
                       (let dst = weighted_distance ! seed in
                        case unravel_index seed (shape discrepancy) of
                          Inl e \<Rightarrow> (Inl e, rs')
                        | Inr [] \<Rightarrow> (Inl IndexError, rs')
                        | Inr (g0 # g) \<Rightarrow> (Inr (Some (dst # map real g)), rs')))
              else (Inr None, rs)))"

section \<open>AddRandomGuidanced and PosNegClickProbAddRandomGuidanced: the instances\<close>


















section \<open>DiscardAddGuidanced\<close>

text \<open>
  \<^verbatim>\<open>MapTransform\<close> (of the host framework) stores the keys and whether a missing key is
  tolerated; \<^verbatim>\<open>DiscardAddGuidanced.__init__\<close>, lines 28-45, adds the number of intensity
  channels and the discard probability.
\<close>

record MapTransform =
  keys :: "string list"
  allow_missing_keys :: bool

record DiscardAddGuidanced = MapTransform +
  number_intensity_ch :: int
  discard_probability :: real

definition np_zeros :: "nat list \<Rightarrow> ndarray" where
  "np_zeros s = \<lparr>shape = s, flat = replicate (prod_list s) 0\<rparr>"

text \<open>\<^verbatim>\<open>a.shape[k]\<close>.\<close>

definition shape_at :: "ndarray \<Rightarrow> int \<Rightarrow> error + nat" where
  "shape_at a k = bind_err (py_index k (length (shape a))) (\<lambda>j. Inr (shape a ! j))"

text \<open>
  \<^verbatim>\<open>a[k] = v\<close>: \<open>v\<close> is broadcast to the shape of \<open>a[k]\<close>; numpy first drops leading
  axes of extent 1 that \<open>v\<close> has too many.
\<close>

fun strip_leading_ones :: "nat \<Rightarrow> nat list \<Rightarrow> nat list" where
  "strip_leading_ones n (x # xs) =
     (if n < length (x # xs) \<and> x = 1 then strip_leading_ones n xs else x # xs)"
| "strip_leading_ones n [] = []"

definition setitem :: "ndarray \<Rightarrow> int \<Rightarrow> ndarray \<Rightarrow> error + ndarray" where
  "setitem a k v =
     (case shape a of
        [] \<Rightarrow> Inl IndexError
      | n # rest \<Rightarrow>
          bind_err (py_index k n) (\<lambda>j.
            let vs = strip_leading_ones (length rest) (shape v) in
            if length vs \<le> length rest \<and> broadcast_shapes vs rest = Some rest then
              Inr \<lparr>shape = shape a,
                   flat = take (j * prod_list rest) (flat a)
                        @ map (\<lambda>i. flat v ! ravel_multi_index (project_index (unravel i rest) vs) vs)
                              [0..<prod_list rest]
                        @ drop (Suc j * prod_list rest) (flat a)\<rparr>
            else Inl ValueError))"

text \<open>\<^verbatim>\<open>np.concatenate(arrays, axis=0)\<close>.\<close>

definition concatenate :: "ndarray list \<Rightarrow> error + ndarray" where
  "concatenate arrays =
     (case arrays of
        [] \<Rightarrow> Inl ValueError
      | a # as \<Rightarrow>
          if shape a \<noteq> [] \<and> list_all (\<lambda>b. shape b \<noteq> [] \<and> tl (shape b) = tl (shape a)) as then
            Inr \<lparr>shape = sum_list (map (\<lambda>b. hd (shape b)) (a # as)) # tl (shape a),
                 flat = concat (map flat (a # as))\<rparr>
          else Inl ValueError)"

text \<open>
  \<^verbatim>\<open>_apply\<close>, lines 47-57.  \<^verbatim>\<open>np.random.choice\<close> draws from numpy's global random state,
  which is passed in and out; with a discard probability of 1 or more the \<^verbatim>\<open>or\<close> does not
  evaluate it.  The image has to be an array for \<^verbatim>\<open>image.shape\<close>.
\<close>

definition discard_apply ::
  "DiscardAddGuidanced \<Rightarrow> rstate \<Rightarrow> pyval \<Rightarrow> (error + pyval) \<times> rstate" where
  "discard_apply self rs img =
     (case (if discard_probability self \<ge> 1 then (Inr True, rs)
            else choice rs [True, False] [discard_probability self, 1 - discard_probability self]) of
        (Inl e, rs') \<Rightarrow> (Inl e, rs')
      | (Inr False, rs') \<Rightarrow> (Inr img, rs')
      | (Inr True, rs') \<Rightarrow>
          (case img of
             PArray arr \<Rightarrow>
               (bind_err (shape_at arr (- 3)) (\<lambda>s3.
                bind_err (shape_at arr (- 2)) (\<lambda>s2.
                bind_err (shape_at arr (- 1)) (\<lambda>s1.
                  let signal = np_zeros [1, s3, s2, s1] in
                  bind_err (shape_at arr 0) (\<lambda>s0.
                    if int s0 = number_intensity_ch self + 2 then
                      bind_err (setitem arr (number_intensity_ch self) signal) (\<lambda>arr1.
                      bind_err (setitem arr1 (number_intensity_ch self + 1) signal) (\<lambda>arr2.
                      Inr (PArray arr2)))
                    else map_sum id PArray (concatenate [arr, signal, signal]))))),
                rs')
           | _ \<Rightarrow> (Inl AttributeError, rs')))"

text \<open>
  \<^verbatim>\<open>__call__\<close>, lines 59-66.  \<^verbatim>\<open>key_iterator\<close> (of the host framework) yields the keys
  of the transform that the record has and raises \<open>KeyError\<close> for a missing one unless
  missing keys are allowed.
\<close>

fun discard_loop ::
  "DiscardAddGuidanced \<Rightarrow> rstate \<Rightarrow> string list \<Rightarrow> pydict \<Rightarrow> (error + pydict) \<times> rstate" where
  "discard_loop self rs [] d = (Inr d, rs)"
| "discard_loop self rs (key # ks) d =
     (case d key of
        None \<Rightarrow> if allow_missing_keys self then discard_loop self rs ks d else (Inl KeyError, rs)
      | Some v \<Rightarrow>
          if key = ''image'' then
            (case discard_apply self rs v of
               (Inl e, rs') \<Rightarrow> (Inl e, rs')
             | (Inr img, rs') \<Rightarrow> discard_loop self rs' ks (d(key \<mapsto> img)))
          else discard_loop self rs ks d)"

definition discard_call ::
  "DiscardAddGuidanced \<Rightarrow> rstate \<Rightarrow> pydict \<Rightarrow> (error + pydict) \<times> rstate" where
  "discard_call self rs d = discard_loop self rs (keys self) d"

section \<open>SingleLabelSingleModalityd\<close>

text \<open>
  The records this transform reads hold arrays under \<^verbatim>\<open>"label"\<close> and \<^verbatim>\<open>"image"\<close> and
  metadata dictionaries under \<^verbatim>\<open>"label_meta_dict"\<close> and \<^verbatim>\<open>"image_meta_dict"\<close>.  A
  metadata dictionary maps names to sequences of numbers (\<^verbatim>\<open>pixdim\<close>, \<^verbatim>\<open>dim\<close>), to
  strings (\<^verbatim>\<open>filename_or_obj\<close>) or to other values.  The two metadata dictionaries and
  their sequences are separate objects, as the image loader creates them, so an
  assignment into one is an update of that entry of the record.
\<close>

datatype metaval = MList "real list" | MStr string | MOther

datatype slval = SArray ndarray | SMeta "string \<Rightarrow> metaval option" | SOther

type_synonym sldict = "string \<Rightarrow> slval option"

text \<open>\<^verbatim>\<open>meta_data[name][i] = v\<close>.\<close>

definition meta_setitem ::
  "(string \<Rightarrow> metaval option) \<Rightarrow> string \<Rightarrow> nat \<Rightarrow> real \<Rightarrow> error + (string \<Rightarrow> metaval option)" where
  "meta_setitem m name i v =
     (case m name of
        None \<Rightarrow> Inl KeyError
      | Some (MList xs) \<Rightarrow> if i < length xs then Inr (m(name \<mapsto> MList (xs[i := v]))) else Inl IndexError
      | Some _ \<Rightarrow> Inl TypeError)"

text \<open>\<^verbatim>\<open>meta_data[name][i]\<close>, read as a number.\<close>

definition meta_getitem :: "(string \<Rightarrow> metaval option) \<Rightarrow> string \<Rightarrow> nat \<Rightarrow> error + real" where
  "meta_getitem m name i =
     (case m name of
        None \<Rightarrow> Inl KeyError
      | Some (MList xs) \<Rightarrow> if i < length xs then Inr (xs ! i) else Inl IndexError
      | Some _ \<Rightarrow> Inl TypeError)"

text \<open>
  The argument of \<^verbatim>\<open>logger.info\<close> is an f-string, evaluated before the call: it reads
  \<^verbatim>\<open>meta_data['filename_or_obj']\<close> and splits it.
\<close>

definition log_filename :: "(string \<Rightarrow> metaval option) \<Rightarrow> error + unit" where
  "log_filename m =
     (case m ''filename_or_obj'' of
        None \<Rightarrow> Inl KeyError
      | Some (MStr s) \<Rightarrow> Inr ()
      | Some _ \<Rightarrow> Inl AttributeError)"

text \<open>The three assignments that end both branches, lines 321-323 and 335-337.\<close>

definition patch_meta :: "(string \<Rightarrow> metaval option) \<Rightarrow> error + (string \<Rightarrow> metaval option)" where
  "patch_meta m =
     bind_err (meta_setitem m ''pixdim'' 4 0) (\<lambda>m1.
     bind_err (meta_setitem m1 ''dim'' 0 3) (\<lambda>m2.
     meta_setitem m2 ''dim'' 4 1))"

text \<open>
  \<^verbatim>\<open>np.stack([a > 0, a == 0], axis=0).astype(np.float32)[0, ...]\<close>: the indicator of
  \<open>a > 0\<close>, with the shape of \<open>a\<close>.
\<close>

definition foreground :: "ndarray \<Rightarrow> ndarray" where
  "foreground a = \<lparr>shape = shape a, flat = map (\<lambda>x. if x > 0 then 1 else 0) (flat a)\<rparr>"

text \<open>\<^verbatim>\<open>a[..., 0]\<close>.\<close>

definition first_of_last_axis :: "ndarray \<Rightarrow> error + ndarray" where
  "first_of_last_axis a =
     (case rev (shape a) of
        [] \<Rightarrow> Inl IndexError
      | n # rs \<Rightarrow>
          if n = 0 then Inl IndexError
          else Inr \<lparr>shape = rev rs, flat = map (\<lambda>i. flat a ! (i * n)) [0..<prod_list rs]\<rparr>)"

text \<open>The body of the loop for the key \<^verbatim>\<open>"label"\<close>, lines 305-323.\<close>

definition label_step :: "sldict \<Rightarrow> error + sldict" where
  "label_step d =
     (case d ''label_meta_dict'' of
        None \<Rightarrow> Inl KeyError
      | Some meta_data \<Rightarrow>
          (case d ''label'' of
             None \<Rightarrow> Inl KeyError
           | Some (SArray a) \<Rightarrow>
               if flat a = [] then Inl ValueError
               else if Max (set (flat a)) > 1 then
                 (case meta_data of
                    SMeta m \<Rightarrow>
                      bind_err (log_filename m) (\<lambda>u.
                      bind_err (patch_meta m) (\<lambda>m'.
                      Inr (d(''label'' \<mapsto> SArray (foreground a), ''label_meta_dict'' \<mapsto> SMeta m'))))
                  | _ \<Rightarrow> Inl TypeError)
               else Inr d
           | Some _ \<Rightarrow> Inl AttributeError))"

text \<open>The body of the loop for the key \<^verbatim>\<open>"image"\<close>, lines 325-337.\<close>

definition image_step :: "sldict \<Rightarrow> error + sldict" where
  "image_step d =
     (case d ''image_meta_dict'' of
        None \<Rightarrow> Inl KeyError
      | Some (SMeta m) \<Rightarrow>
          bind_err (meta_getitem m ''pixdim'' 4) (\<lambda>p.
            if p > 0 then
              bind_err (log_filename m) (\<lambda>u.
                case d ''image'' of
                  None \<Rightarrow> Inl KeyError
                | Some (SArray a) \<Rightarrow>
                    bind_err (first_of_last_axis a) (\<lambda>a'.
                    bind_err (patch_meta m) (\<lambda>m'.
                    Inr (d(''image'' \<mapsto> SArray a', ''image_meta_dict'' \<mapsto> SMeta m'))))
                | Some _ \<Rightarrow> Inl TypeError)
            else Inr d)
      | Some _ \<Rightarrow> Inl TypeError)"

text \<open>\<^verbatim>\<open>__call__\<close>, lines 302-339: the loop over \<^verbatim>\<open>self.keys\<close>.\<close>

fun single_loop :: "string list \<Rightarrow> sldict \<Rightarrow> error + sldict" where
  "single_loop [] d = Inr d"
| "single_loop (key # ks) d =
     bind_err (if key = ''label'' then label_step d else Inr d) (\<lambda>d1.
     bind_err (if key = ''image'' then image_step d1 else Inr d1) (\<lambda>d2.
     single_loop ks d2))"

definition single_call :: "MapTransform \<Rightarrow> sldict \<Rightarrow> error + sldict" where
  "single_call self d = single_loop (keys self) d"

text \<open>
  Two predicates for the proofs, not part of the module.  \<open>label_done d\<close>: the reads of the
  loop body for \<^verbatim>\<open>"label"\<close> succeed on \<open>d\<close> and its branch is not entered (the label is a
  non-empty array with maximum at most 1).  \<open>image_done d\<close>: the reads of the loop body for
  \<^verbatim>\<open>"image"\<close> succeed and its branch is not entered (\<^verbatim>\<open>pixdim[4]\<close> is not positive).
\<close>

definition label_done :: "sldict \<Rightarrow> bool" where
  "label_done d =
     (d ''label_meta_dict'' \<noteq> None \<and>
      (case d ''label'' of
         Some (SArray a) \<Rightarrow> flat a \<noteq> [] \<and> Max (set (flat a)) \<le> 1
       | _ \<Rightarrow> False))"

definition image_done :: "sldict \<Rightarrow> bool" where
  "image_done d =
     (case d ''image_meta_dict'' of
        Some (SMeta m) \<Rightarrow> (case meta_getitem m ''pixdim'' 4 of Inr p \<Rightarrow> p \<le> 0 | Inl e \<Rightarrow> False)
      | _ \<Rightarrow> False)"

text \<open>
  The three steps in the words of the specification, for a mask \<open>m\<close> and a distance
  transform \<open>cdt\<close>: the flat indices where the flattened mask is positive, the distance
  of each of them, its weight \<open>exp(distance) - 1\<close>, and the weights normalised over those
  indices.
\<close>

definition positive_indices :: "ndarray \<Rightarrow> nat list" where
  "positive_indices m = filter (\<lambda>i. flat m ! i > 0) [0..<length (flat m)]"

definition seed_distances :: "(ndarray \<Rightarrow> ndarray) \<Rightarrow> ndarray \<Rightarrow> real list" where
  "seed_distances cdt m = map (\<lambda>i. flat (cdt m) ! i) (positive_indices m)"

definition seed_weights :: "(ndarray \<Rightarrow> ndarray) \<Rightarrow> ndarray \<Rightarrow> real list" where
  "seed_weights cdt m = map (\<lambda>i. exp (flat (cdt m) ! i) - 1) (positive_indices m)"

definition seed_probabilities :: "(ndarray \<Rightarrow> ndarray) \<Rightarrow> ndarray \<Rightarrow> real list" where
  "seed_probabilities cdt m =
     map (\<lambda>x. x / sum_list (seed_weights cdt m)) (seed_weights cdt m)"

text \<open>A row of 710 positive voxels followed by one zero voxel.\<close>

definition overflow_mask :: ndarray where
  "overflow_mask = \<lparr>shape = [1, 711], flat = replicate 710 1 @ [0]\<rparr>"

text \<open>A mask with no zero voxel.\<close>

definition all_positive_mask :: ndarray where
  "all_positive_mask = \<lparr>shape = [1, 2], flat = [1, 1]\<rparr>"

text \<open>A mask with one positive voxel, next to a zero voxel.\<close>

definition single_voxel_mask :: ndarray where
  "single_voxel_mask = \<lparr>shape = [1, 2], flat = [1, 0]\<rparr>"

section \<open>Example inputs\<close>

definition example_discard :: DiscardAddGuidanced where
  "example_discard = \<lparr>keys = [''image''], allow_missing_keys = False,
                       number_intensity_ch = 1, discard_probability = 1\<rparr>"

definition example_record :: sldict where
  "example_record =
     [''label'' \<mapsto> SArray \<lparr>shape = [2, 2], flat = [0, 2, 3, 1]\<rparr>,
      ''label_meta_dict'' \<mapsto> SMeta [''pixdim'' \<mapsto> MList [1, 1, 1, 1, 0, 0, 0, 0],
                                      ''dim'' \<mapsto> MList [3, 2, 2, 1, 1, 0, 0, 0],
                                      ''filename_or_obj'' \<mapsto> MStr ''l.nii''],
      ''image'' \<mapsto> SArray \<lparr>shape = [1, 2, 2], flat = [5, 6, 7, 8]\<rparr>,
      ''image_meta_dict'' \<mapsto> SMeta [''pixdim'' \<mapsto> MList [1, 1, 1, 1, 1, 0, 0, 0],
                                      ''dim'' \<mapsto> MList [4, 1, 2, 1, 2, 0, 0, 0],
                                      ''filename_or_obj'' \<mapsto> MStr ''i.nii'']]"

definition example_single :: MapTransform where
  "example_single = \<lparr>keys = [''label'', ''image''], allow_missing_keys = False\<rparr>"

definition example_result :: sldict where
  "example_result =
     example_record
       (''label'' \<mapsto> SArray \<lparr>shape = [2, 2], flat = [0, 1, 1, 1]\<rparr>,
        ''label_meta_dict'' \<mapsto> SMeta [''pixdim'' \<mapsto> MList [1, 1, 1, 1, 0, 0, 0, 0],
                                  ''dim'' \<mapsto> MList [3, 2, 2, 1, 1, 0, 0, 0],
                                  ''filename_or_obj'' \<mapsto> MStr ''l.nii''],
        ''image'' \<mapsto> SArray \<lparr>shape = [1, 2], flat = [5, 7]\<rparr>,
        ''image_meta_dict'' \<mapsto> SMeta [''pixdim'' \<mapsto> MList [1, 1, 1, 1, 0, 0, 0, 0],
                                  ''dim'' \<mapsto> MList [3, 1, 2, 1, 1, 0, 0, 0],
                                  ''filename_or_obj'' \<mapsto> MStr ''i.nii''])"

definition example_mask :: ndarray where
  "example_mask = \<lparr>shape = [1, 3], flat = [1, 1, 0]\<rparr>"








section \<open>Worked examples of the sampler\<close>

lemma cdt_example:
  "flat (distance_transform_cdt \<lparr>shape = [Suc 0, 2], flat = [1, 0]\<rparr>) = [1, 0]"
  by (simp add: distance_transform_cdt_def chebyshev_def)

lemma exp_two_le: "exp (2::real) \<le> 9"
proof -
  have "exp (2 * 1 :: real) = exp 1 ^ 2" by (rule exp_double)
  moreover have "exp (1::real) ^ 2 \<le> 3 ^ 2" by (rule power_mono) (simp_all add: exp_le)
  ultimately show ?thesis by simp
qed

lemma dbl_max_large: "100 \<le> dbl_max"
  by (simp add: dbl_max_def)

lemma not_overflows_one: "\<not> overflows [1]"
  unfolding overflows_def using exp_le dbl_max_large by (simp add: exp_max_arg_def)

lemma not_overflows_two_one: "\<not> overflows [2, 1]"
  unfolding overflows_def using exp_le exp_two_le dbl_max_large by (simp add: exp_max_arg_def)

lemma arg_find_guidance_example:
  "fst (arg_find_guidance distance_transform_cdt (\<lambda>n. 0) \<lparr>shape = [1, 2], flat = [1, 0]\<rparr> None)
     = Inr (Some [1, 0])"
  by (simp add: arg_find_guidance_def Let_def cdt_example choice_def searchsorted_right_def
      unravel_index_def not_overflows_one)

section \<open>The two samplers agree\<close>

text \<open>
  Claim C5.  The sampling routine exists twice in the module, as a method of
  \<^verbatim>\<open>AddRandomGuidanced\<close> and as a method of \<^verbatim>\<open>PosNegClickProbAddRandomGuidanced\<close>.  The
  two are extensionally equal: for every discrepancy mask, every weight map (or none),
  every random state and every distance transform they return the same result and leave
  the same random state.
\<close>

theorem find_guidance_implementations_agree:
  "pnc_find_guidance cdt rs discrepancy weight_map
     = arg_find_guidance cdt rs discrepancy weight_map"
  by (simp add: pnc_find_guidance_def arg_find_guidance_def)

theorem find_guidance_implementations_agree_witness:
  "fst (pnc_find_guidance distance_transform_cdt (\<lambda>n. 0)
          \<lparr>shape = [1, 2], flat = [1, 0]\<rparr> None) = Inr (Some [1, 0])"
  using find_guidance_implementations_agree [of distance_transform_cdt "\<lambda>n. 0"
      "\<lparr>shape = [1, 2], flat = [1, 0]\<rparr>" None]
  by (simp only: arg_find_guidance_example)

section \<open>Arrays: indices and assignment\<close>

lemma length_unravel: "length (unravel i s) = length s"
  by (induction s arbitrary: i) auto

lemma ravel_unravel: "i < prod_list s \<Longrightarrow> ravel_multi_index (unravel i s) s = i"
proof (induction s arbitrary: i)
  case Nil
  then show ?case by simp
next
  case (Cons n ns)
  then have pos: "0 < prod_list ns" by (cases "prod_list ns = 0") auto
  then have "i mod prod_list ns < prod_list ns" by simp
  with Cons.IH have "ravel_multi_index (unravel (i mod prod_list ns) ns) ns = i mod prod_list ns" .
  then show ?case by simp
qed

lemma map2_unravel:
  "i < prod_list s \<Longrightarrow> map2 (\<lambda>k n. if n = 1 then 0 else k) (unravel i s) s = unravel i s"
proof (induction s arbitrary: i)
  case Nil
  then show ?case by simp
next
  case (Cons n ns)
  then have pos: "0 < prod_list ns" by (cases "prod_list ns = 0") auto
  then have "i mod prod_list ns < prod_list ns" by simp
  with Cons.IH have IH: "map2 (\<lambda>k n. if n = 1 then 0 else k) (unravel (i mod prod_list ns) ns) ns
      = unravel (i mod prod_list ns) ns" .
  have "n = 1 \<Longrightarrow> i div prod_list ns = 0" using Cons.prems by simp
  with IH show ?case by auto
qed

lemma project_unravel: "i < prod_list s \<Longrightarrow> project_index (unravel i s) s = unravel i s"
  unfolding project_index_def using map2_unravel [of i s] by (simp add: length_unravel)

lemma broadcast_rev_same: "broadcast_rev xs xs = Some xs"
  by (induction xs) auto

lemma broadcast_shapes_same: "broadcast_shapes s s = Some s"
  by (simp add: broadcast_shapes_def broadcast_rev_same)

lemma setitem_signal:
  assumes sh: "shape a = [c, h, w, dd]" and k: "k < c"
  shows "setitem a (int k) (np_zeros [1, h, w, dd])
     = Inr \<lparr>shape = [c, h, w, dd],
            flat = take (k * (h * w * dd)) (flat a) @ replicate (h * w * dd) 0
                   @ drop (Suc k * (h * w * dd)) (flat a)\<rparr>"
proof -
  have idx: "py_index (int k) c = Inr k" using k by (simp add: py_index_def)
  have m: "map (\<lambda>i. flat (np_zeros [1, h, w, dd]) !
              ravel_multi_index (project_index (unravel i [h, w, dd]) [h, w, dd]) [h, w, dd])
            [0..<prod_list [h, w, dd]] = replicate (h * w * dd) 0"
  proof (rule nth_equalityI)
    show "length (map (\<lambda>i. flat (np_zeros [1, h, w, dd]) !
              ravel_multi_index (project_index (unravel i [h, w, dd]) [h, w, dd]) [h, w, dd])
            [0..<prod_list [h, w, dd]]) = length (replicate (h * w * dd) (0::real))"
      by (simp add: mult.assoc)
  next
    fix i assume "i < length (map (\<lambda>i. flat (np_zeros [1, h, w, dd]) !
              ravel_multi_index (project_index (unravel i [h, w, dd]) [h, w, dd]) [h, w, dd])
            [0..<prod_list [h, w, dd]])"
    then have i: "i < prod_list [h, w, dd]" by simp
    have "ravel_multi_index (project_index (unravel i [h, w, dd]) [h, w, dd]) [h, w, dd] = i"
      using i by (simp only: project_unravel ravel_unravel)
    moreover have "flat (np_zeros [1, h, w, dd]) ! i = 0"
      using i by (simp add: np_zeros_def mult.assoc)
    ultimately show "map (\<lambda>i. flat (np_zeros [1, h, w, dd]) !
              ravel_multi_index (project_index (unravel i [h, w, dd]) [h, w, dd]) [h, w, dd])
            [0..<prod_list [h, w, dd]] ! i = replicate (h * w * dd) 0 ! i"
      using i by (simp add: mult.assoc)
  qed
  have s: "strip_leading_ones 3 [1, h, w, dd] = [h, w, dd]" by simp
  show ?thesis
    unfolding setitem_def sh
    apply (simp only: list.case idx bind_err_def sum.case Let_def)
    apply (simp only: np_zeros_def ndarray.simps list.size length_Cons)
    apply (simp add: broadcast_shapes_same)
    using m apply (simp add: np_zeros_def mult.assoc)
    done
qed


lemma shape_at_4d:
  assumes "shape a = [c, h, w, dd]"
  shows "shape_at a (- 3) = Inr h" "shape_at a (- 2) = Inr w" "shape_at a (- 1) = Inr dd"
    "shape_at a 0 = Inr c"
  using assms by (simp_all add: shape_at_def py_index_def bind_err_def)

lemma discard_apply_replace:
  assumes p: "discard_probability self \<ge> 1" and sh: "shape arr = [c, h, w, dd]"
    and wf: "wf_array arr" and n0: "0 \<le> number_intensity_ch self"
    and c: "int c = number_intensity_ch self + 2"
  shows "discard_apply self rs (PArray arr)
    = (Inr (PArray \<lparr>shape = [c, h, w, dd],
                    flat = take (nat (number_intensity_ch self) * (h * w * dd)) (flat arr)
                           @ replicate (2 * (h * w * dd)) 0\<rparr>), rs)"
proof -
  define n where "n = nat (number_intensity_ch self)"
  have nn: "number_intensity_ch self = int n" using n0 by (simp add: n_def)
  have cn: "c = n + 2" using c nn by simp
  have len: "length (flat arr) = (n + 2) * (h * w * dd)"
    using wf sh cn by (simp add: wf_array_def)
  let ?a1 = "\<lparr>shape = [c, h, w, dd],
            flat = take (n * (h * w * dd)) (flat arr) @ replicate (h * w * dd) 0
                   @ drop (Suc n * (h * w * dd)) (flat arr)\<rparr>"
  have s1: "setitem arr (int n) (np_zeros [1, h, w, dd]) = Inr ?a1"
    using setitem_signal [OF sh, of n] cn by simp
  have e: "int n + 1 = int (Suc n)" by simp
  have s2: "setitem ?a1 (int n + 1) (np_zeros [1, h, w, dd])
     = Inr \<lparr>shape = [c, h, w, dd],
            flat = take (Suc n * (h * w * dd)) (flat ?a1) @ replicate (h * w * dd) 0
                   @ drop (Suc (Suc n) * (h * w * dd)) (flat ?a1)\<rparr>"
    unfolding e by (rule setitem_signal) (simp_all add: cn)
  have l1: "length (take (n * (h * w * dd)) (flat arr)) = n * (h * w * dd)"
    using len by simp
  have f: "take (Suc n * (h * w * dd)) (flat ?a1) @ replicate (h * w * dd) 0
                   @ drop (Suc (Suc n) * (h * w * dd)) (flat ?a1)
     = take (n * (h * w * dd)) (flat arr) @ replicate (2 * (h * w * dd)) 0"
    using len l1 by (simp add: replicate_add [symmetric] del: replicate_add)
  have step: "bind_err (setitem arr (int n) (np_zeros [1, h, w, dd])) (\<lambda>arr1.
                bind_err (setitem arr1 (int n + 1) (np_zeros [1, h, w, dd])) (\<lambda>arr2.
                Inr (PArray arr2)))
     = Inr (PArray \<lparr>shape = [c, h, w, dd],
                    flat = take (n * (h * w * dd)) (flat arr) @ replicate (2 * (h * w * dd)) 0\<rparr>)"
    by (simp only: s1 s2 f bind_err_def sum.case)
  show ?thesis
    unfolding discard_apply_def
    using p c step by (simp add: shape_at_4d [OF sh] bind_err_def Let_def nn)
qed

lemma discard_apply_concat:
  assumes p: "discard_probability self \<ge> 1" and sh: "shape arr = [c, h, w, dd]"
    and c: "int c \<noteq> number_intensity_ch self + 2"
  shows "discard_apply self rs (PArray arr)
    = (Inr (PArray \<lparr>shape = [c + 2, h, w, dd],
                    flat = flat arr @ replicate (2 * (h * w * dd)) 0\<rparr>), rs)"
  unfolding discard_apply_def
  using p c
  by (simp add: shape_at_4d [OF sh] bind_err_def Let_def concatenate_def sh np_zeros_def
      replicate_add [symmetric] del: replicate_add)


lemma getitem_block:
  "shape a = m # rest \<Longrightarrow> j < m \<Longrightarrow>
   getitem a (int j) = Inr \<lparr>shape = rest, flat = take (prod_list rest) (drop (j * prod_list rest) (flat a))\<rparr>"
  by (simp add: getitem_def py_index_def bind_err_def)

lemma zero_tail_channels:
  assumes len: "length pre = k * (h * w * dd)"
  shows "getitem \<lparr>shape = [k + 2, h, w, dd], flat = pre @ replicate (2 * (h * w * dd)) 0\<rparr> (int k)
           = Inr (np_zeros [h, w, dd])"
    and "getitem \<lparr>shape = [k + 2, h, w, dd], flat = pre @ replicate (2 * (h * w * dd)) 0\<rparr> (int k + 1)
           = Inr (np_zeros [h, w, dd])"
    and "j < k \<Longrightarrow>
         getitem \<lparr>shape = [k + 2, h, w, dd], flat = pre @ replicate (2 * (h * w * dd)) 0\<rparr> (int j)
           = Inr \<lparr>shape = [h, w, dd], flat = take (h * w * dd) (drop (j * (h * w * dd)) pre)\<rparr>"
proof -
  let ?X = "\<lparr>shape = [k + 2, h, w, dd], flat = pre @ replicate (2 * (h * w * dd)) 0\<rparr>"
  show "getitem ?X (int k) = Inr (np_zeros [h, w, dd])"
    using getitem_block [of ?X "k + 2" "[h, w, dd]" k] len
    by (simp add: np_zeros_def mult.assoc min_def)
  have e: "int k + 1 = int (Suc k)" by simp
  show "getitem ?X (int k + 1) = Inr (np_zeros [h, w, dd])"
    unfolding e using getitem_block [of ?X "k + 2" "[h, w, dd]" "Suc k"] len
    by (simp add: np_zeros_def mult.assoc)
  assume j: "j < k"
  then have "Suc j * (h * w * dd) \<le> k * (h * w * dd)" by (metis Suc_leI mult_le_mono1)
  then have "j * (h * w * dd) + h * w * dd \<le> length pre" using len by simp
  then show "getitem ?X (int j)
           = Inr \<lparr>shape = [h, w, dd], flat = take (h * w * dd) (drop (j * (h * w * dd)) pre)\<rparr>"
    using getitem_block [of ?X "k + 2" "[h, w, dd]" j] j by (simp add: mult.assoc)
qed

lemma discard_loop_other:
  "''image'' \<notin> set ks \<Longrightarrow> \<forall>k\<in>set ks. d k \<noteq> None \<Longrightarrow> discard_loop self rs ks d = (Inr d, rs)"
  by (induction ks) auto

lemma discard_loop_image:
  "distinct ks \<Longrightarrow> ''image'' \<in> set ks \<Longrightarrow> \<forall>k\<in>set ks. d k \<noteq> None \<Longrightarrow> d ''image'' = Some v \<Longrightarrow>
   discard_loop self rs ks d =
     (case discard_apply self rs v of
        (Inl e, rs') \<Rightarrow> (Inl e, rs')
      | (Inr img, rs') \<Rightarrow> (Inr (d(''image'' \<mapsto> img)), rs'))"
proof (induction ks)
  case Nil
  then show ?case by simp
next
  case (Cons key ks)
  show ?case
  proof (cases "key = ''image''")
    case True
    with Cons.prems have ni: "''image'' \<notin> set ks" by simp
    have "\<And>img. \<forall>k\<in>set ks. (d(''image'' \<mapsto> img)) k \<noteq> None" using Cons.prems(3) by simp
    then have "\<And>img rs'. discard_loop self rs' ks (d(''image'' \<mapsto> img)) = (Inr (d(''image'' \<mapsto> img)), rs')"
      using discard_loop_other [OF ni] by blast
    then show ?thesis using True Cons.prems(4)
      by (auto split: prod.splits sum.splits simp: fun_upd_def)
  next
    case False
    with Cons.prems obtain u where "d key = Some u" by auto
    moreover have "discard_loop self rs ks d =
     (case discard_apply self rs v of
        (Inl e, rs') \<Rightarrow> (Inl e, rs')
      | (Inr img, rs') \<Rightarrow> (Inr (d(''image'' \<mapsto> img)), rs'))"
      using Cons.IH Cons.prems False by simp
    ultimately show ?thesis using False by simp
  qed
qed

section \<open>DiscardAddGuidanced discards deterministically\<close>

text \<open>
  Claim C6, restricted to images with four axes.  With a discard probability of 1.0 or
  more (the default) nothing is drawn and the random state is untouched.  For an image of
  shape \<open>(C, H, W, D)\<close> and a non-negative number of intensity channels \<open>n\<close>: when
  \<open>C = n + 2\<close> the result has the shape of the image, its channels \<open>n\<close> and \<open>n + 1\<close>
  are all zero and the channels before them are those of the image; otherwise the result
  has \<open>C + 2\<close> channels of the same spatial extent, the two new ones all zero, the first
  \<open>C\<close> those of the image.  \<^verbatim>\<open>__call__\<close> stores that result under \<^verbatim>\<open>"image"\<close> when the
  key is among the keys of the transform once and every key is present.
\<close>

theorem discard_add_guidance_deterministic:
  assumes p: "discard_probability self \<ge> 1" and sh: "shape arr = [c, h, w, dd]"
    and wf: "wf_array arr" and n0: "0 \<le> number_intensity_ch self"
  shows "(case discard_apply self rs (PArray arr) of
            (Inr (PArray arr'), rs') \<Rightarrow>
              rs' = rs \<and> wf_array arr' \<and>
              (if int c = number_intensity_ch self + 2
               then shape arr' = shape arr \<and>
                    getitem arr' (number_intensity_ch self) = Inr (np_zeros [h, w, dd]) \<and>
                    getitem arr' (number_intensity_ch self + 1) = Inr (np_zeros [h, w, dd]) \<and>
                    (\<forall>j. j < nat (number_intensity_ch self) \<longrightarrow>
                           getitem arr' (int j) = getitem arr (int j))
               else shape arr' = [c + 2, h, w, dd] \<and>
                    getitem arr' (int c) = Inr (np_zeros [h, w, dd]) \<and>
                    getitem arr' (int c + 1) = Inr (np_zeros [h, w, dd]) \<and>
                    (\<forall>j. j < c \<longrightarrow> getitem arr' (int j) = getitem arr (int j)))
          | _ \<Rightarrow> False)
       \<and> (distinct (keys self) \<and> ''image'' \<in> set (keys self) \<and> (\<forall>k\<in>set (keys self). d k \<noteq> None)
            \<and> d ''image'' = Some (PArray arr) \<longrightarrow>
          (case (discard_apply self rs (PArray arr), discard_call self rs d) of
             ((Inr v, _), (Inr d', rs')) \<Rightarrow> d' = d(''image'' \<mapsto> v) \<and> rs' = rs
           | _ \<Rightarrow> False))"
proof -
  let ?P = "h * w * dd"
  define n where "n = nat (number_intensity_ch self)"
  have nn: "number_intensity_ch self = int n" using n0 by (simp add: n_def)
  have len: "length (flat arr) = c * ?P" using wf sh by (simp add: wf_array_def mult.assoc)
  have orig: "\<And>j. j < c \<Longrightarrow> getitem arr (int j)
      = Inr \<lparr>shape = [h, w, dd], flat = take ?P (drop (j * ?P) (flat arr))\<rparr>"
    using getitem_block [OF sh] by (simp add: mult.assoc)
  have main: "\<exists>arr'. discard_apply self rs (PArray arr) = (Inr (PArray arr'), rs) \<and> wf_array arr' \<and>
              (if int c = number_intensity_ch self + 2
               then shape arr' = shape arr \<and>
                    getitem arr' (number_intensity_ch self) = Inr (np_zeros [h, w, dd]) \<and>
                    getitem arr' (number_intensity_ch self + 1) = Inr (np_zeros [h, w, dd]) \<and>
                    (\<forall>j. j < nat (number_intensity_ch self) \<longrightarrow>
                           getitem arr' (int j) = getitem arr (int j))
               else shape arr' = [c + 2, h, w, dd] \<and>
                    getitem arr' (int c) = Inr (np_zeros [h, w, dd]) \<and>
                    getitem arr' (int c + 1) = Inr (np_zeros [h, w, dd]) \<and>
                    (\<forall>j. j < c \<longrightarrow> getitem arr' (int j) = getitem arr (int j)))"
  proof (cases "int c = number_intensity_ch self + 2")
    case True
    then have cn: "c = n + 2" using nn by simp
    let ?pre = "take (n * ?P) (flat arr)"
    let ?X = "\<lparr>shape = [n + 2, h, w, dd], flat = ?pre @ replicate (2 * ?P) 0\<rparr>"
    have lp: "length ?pre = n * ?P" using len cn by simp
    have r: "discard_apply self rs (PArray arr) = (Inr (PArray ?X), rs)"
      using discard_apply_replace [OF p sh wf n0 True] by (simp add: n_def cn)
    have w: "wf_array ?X" using lp by (simp add: wf_array_def mult.assoc)
    have old: "getitem ?X (int j) = getitem arr (int j)" if j: "j < n" for j
    proof -
      have "Suc j * ?P \<le> n * ?P" using j by (metis Suc_leI mult_le_mono1)
      then have "take ?P (drop (j * ?P) ?pre) = take ?P (drop (j * ?P) (flat arr))"
        by (simp add: drop_take min_def)
      then show ?thesis using zero_tail_channels(3) [OF lp j] orig [of j] j cn by simp
    qed
    show ?thesis
      using True r w zero_tail_channels(1,2) [OF lp] old
      by (intro exI [of _ ?X]) (simp add: nn sh cn)
  next
    case False
    let ?X = "\<lparr>shape = [c + 2, h, w, dd], flat = flat arr @ replicate (2 * ?P) 0\<rparr>"
    have r: "discard_apply self rs (PArray arr) = (Inr (PArray ?X), rs)"
      using discard_apply_concat [OF p sh False] .
    have w: "wf_array ?X" using len by (simp add: wf_array_def mult.assoc)
    have old: "getitem ?X (int j) = getitem arr (int j)" if j: "j < c" for j
      using zero_tail_channels(3) [OF len j] orig [OF j] by simp
    show ?thesis
      using False r w zero_tail_channels(1,2) [OF len] old
      by (intro exI [of _ ?X]) simp
  qed
  then obtain arr' where r: "discard_apply self rs (PArray arr) = (Inr (PArray arr'), rs)"
    and rest: "wf_array arr' \<and>
              (if int c = number_intensity_ch self + 2
               then shape arr' = shape arr \<and>
                    getitem arr' (number_intensity_ch self) = Inr (np_zeros [h, w, dd]) \<and>
                    getitem arr' (number_intensity_ch self + 1) = Inr (np_zeros [h, w, dd]) \<and>
                    (\<forall>j. j < nat (number_intensity_ch self) \<longrightarrow>
                           getitem arr' (int j) = getitem arr (int j))
               else shape arr' = [c + 2, h, w, dd] \<and>
                    getitem arr' (int c) = Inr (np_zeros [h, w, dd]) \<and>
                    getitem arr' (int c + 1) = Inr (np_zeros [h, w, dd]) \<and>
                    (\<forall>j. j < c \<longrightarrow> getitem arr' (int j) = getitem arr (int j)))"
    by blast
  have call: "discard_call self rs d = (Inr (d(''image'' \<mapsto> PArray arr')), rs)"
    if "distinct (keys self)" "''image'' \<in> set (keys self)" "\<forall>k\<in>set (keys self). d k \<noteq> None"
      "d ''image'' = Some (PArray arr)"
    unfolding discard_call_def using discard_loop_image [OF that, of self rs] r by simp
  show ?thesis using r rest call by simp
qed

theorem discard_add_guidance_deterministic_witness:
  "discard_probability example_discard \<ge> 1
   \<and> wf_array \<lparr>shape = [3, 1, 1, 2], flat = [1, 2, 3, 4, 5, 6]\<rparr>
   \<and> wf_array \<lparr>shape = [1, 1, 1, 2], flat = [7, 8]\<rparr>
   \<and> 0 \<le> number_intensity_ch example_discard
   \<and> (case discard_apply example_discard (\<lambda>n. 0)
              (PArray \<lparr>shape = [3, 1, 1, 2], flat = [1, 2, 3, 4, 5, 6]\<rparr>) of
         (Inr (PArray arr'), rs') \<Rightarrow>
           shape arr' = [3, 1, 1, 2] \<and>
           getitem arr' 0 = Inr \<lparr>shape = [1, 1, 2], flat = [1, 2]\<rparr> \<and>
           getitem arr' 1 = Inr \<lparr>shape = [1, 1, 2], flat = [0, 0]\<rparr> \<and>
           getitem arr' 2 = Inr \<lparr>shape = [1, 1, 2], flat = [0, 0]\<rparr>
       | _ \<Rightarrow> False)
   \<and> (case discard_apply example_discard (\<lambda>n. 0)
              (PArray \<lparr>shape = [1, 1, 1, 2], flat = [7, 8]\<rparr>) of
         (Inr (PArray arr'), rs') \<Rightarrow>
           shape arr' = [3, 1, 1, 2] \<and>
           getitem arr' 0 = Inr \<lparr>shape = [1, 1, 2], flat = [7, 8]\<rparr> \<and>
           getitem arr' 1 = Inr \<lparr>shape = [1, 1, 2], flat = [0, 0]\<rparr> \<and>
           getitem arr' 2 = Inr \<lparr>shape = [1, 1, 2], flat = [0, 0]\<rparr>
       | _ \<Rightarrow> False)"
proof -
  let ?A = "\<lparr>shape = [3, 1, 1, 2], flat = [1, 2, 3, 4, 5, 6]\<rparr>"
  let ?B = "\<lparr>shape = [1, 1, 1, 2], flat = [7, 8]\<rparr>"
  have p: "discard_probability example_discard \<ge> 1" and n: "0 \<le> number_intensity_ch example_discard"
    by (simp_all add: example_discard_def)
  have wa: "wf_array ?A" and wb: "wf_array ?B" by (simp_all add: wf_array_def)
  have ga: "getitem ?A (int 0) = Inr \<lparr>shape = [1, 1, 2], flat = [1, 2]\<rparr>"
    and gb: "getitem ?B (int 0) = Inr \<lparr>shape = [1, 1, 2], flat = [7, 8]\<rparr>"
    by (simp_all add: getitem_def py_index_def bind_err_def)
  have z: "np_zeros [1, 1, 2] = \<lparr>shape = [1, 1, 2], flat = [0, 0]\<rparr>"
    by (simp add: np_zeros_def numeral_2_eq_2)
  have a: "case discard_apply example_discard (\<lambda>n. 0) (PArray ?A) of
         (Inr (PArray arr'), rs') \<Rightarrow>
           shape arr' = [3, 1, 1, 2] \<and>
           getitem arr' 0 = Inr \<lparr>shape = [1, 1, 2], flat = [1, 2]\<rparr> \<and>
           getitem arr' 1 = Inr \<lparr>shape = [1, 1, 2], flat = [0, 0]\<rparr> \<and>
           getitem arr' 2 = Inr \<lparr>shape = [1, 1, 2], flat = [0, 0]\<rparr>
       | _ \<Rightarrow> False"
    using discard_add_guidance_deterministic [OF p _ wa n, of 3 1 1 2 "\<lambda>n. 0" Map.empty] ga z
    by (auto simp: example_discard_def split: prod.splits sum.splits pyval.splits)
  have b: "case discard_apply example_discard (\<lambda>n. 0) (PArray ?B) of
         (Inr (PArray arr'), rs') \<Rightarrow>
           shape arr' = [3, 1, 1, 2] \<and>
           getitem arr' 0 = Inr \<lparr>shape = [1, 1, 2], flat = [7, 8]\<rparr> \<and>
           getitem arr' 1 = Inr \<lparr>shape = [1, 1, 2], flat = [0, 0]\<rparr> \<and>
           getitem arr' 2 = Inr \<lparr>shape = [1, 1, 2], flat = [0, 0]\<rparr>
       | _ \<Rightarrow> False"
    using discard_add_guidance_deterministic [OF p _ wb n, of 1 1 1 2 "\<lambda>n. 0" Map.empty] gb z
    by (auto simp: example_discard_def split: prod.splits sum.splits pyval.splits)
  show ?thesis using p wa wb n a b by blast
qed

section \<open>SingleLabelSingleModalityd is idempotent\<close>

lemma label_done_fixed:
  assumes "label_done d"
  shows "label_step d = Inr d"
proof -
  from assms obtain md a where md: "d ''label_meta_dict'' = Some md"
    and a: "d ''label'' = Some (SArray a)" and ne: "flat a \<noteq> []"
    and mx: "Max (set (flat a)) \<le> 1"
    by (auto simp: label_done_def split: option.splits slval.splits simp del: Max_le_iff)
  from mx have "\<not> Max (set (flat a)) > 1" by (simp only: not_less)
  then show ?thesis using md a ne by (simp add: label_step_def)
qed

lemma image_done_fixed: "image_done d \<Longrightarrow> image_step d = Inr d"
  by (auto simp: image_done_def image_step_def bind_err_def split: option.splits slval.splits sum.splits)

lemma foreground_nonempty: "flat a \<noteq> [] \<Longrightarrow> flat (foreground a) \<noteq> []"
  by (simp add: foreground_def)

lemma foreground_max: "flat a \<noteq> [] \<Longrightarrow> Max (set (flat (foreground a))) \<le> 1"
proof -
  assume "flat a \<noteq> []"
  then have "set (flat (foreground a)) \<noteq> {}"
    using foreground_nonempty [of a] by (simp only: set_empty not_False_eq_True)
  moreover have "\<forall>x\<in>set (flat (foreground a)). x \<le> 1" by (auto simp: foreground_def)
  ultimately show ?thesis by (simp add: foreground_def)
qed

lemma label_step_done:
  assumes "label_step d = Inr d'"
  shows "label_done d'"
proof -
  from assms obtain md a where md: "d ''label_meta_dict'' = Some md"
    and a: "d ''label'' = Some (SArray a)" and ne: "flat a \<noteq> []"
    by (auto simp: label_step_def split: option.splits slval.splits if_splits)
  show ?thesis
  proof (cases "Max (set (flat a)) > 1")
    case False
    then have "d' = d" using assms md a ne by (simp add: label_step_def)
    moreover have "Max (set (flat a)) \<le> 1" using False by (simp only: not_less)
    ultimately show ?thesis using md a ne by (simp add: label_done_def del: Max_le_iff)
  next
    case True
    then obtain m' where "d' = d(''label'' \<mapsto> SArray (foreground a), ''label_meta_dict'' \<mapsto> SMeta m')"
      using assms md a ne
      by (auto simp: label_step_def bind_err_def split: slval.splits sum.splits)
    then show ?thesis
      using foreground_max [OF ne] foreground_nonempty [OF ne]
      by (simp add: label_done_def del: Max_le_iff)
  qed
qed

lemma patch_meta_pixdim:
  "patch_meta m = Inr m' \<Longrightarrow> meta_getitem m' ''pixdim'' 4 = Inr 0"
  by (auto simp: patch_meta_def meta_setitem_def meta_getitem_def bind_err_def
      split: option.splits metaval.splits if_splits)

lemma image_step_done: "image_step d = Inr d' \<Longrightarrow> image_done d'"
  by (auto simp: image_step_def image_done_def bind_err_def patch_meta_pixdim
      split: option.splits slval.splits sum.splits if_splits)

lemma label_step_keeps_image: "label_step d = Inr d' \<Longrightarrow> image_done d \<Longrightarrow> image_done d'"
  by (auto simp: label_step_def image_done_def bind_err_def
      split: option.splits slval.splits sum.splits if_splits)

lemma image_step_keeps_label: "image_step d = Inr d' \<Longrightarrow> label_done d \<Longrightarrow> label_done d'"
  by (auto simp: image_step_def label_done_def bind_err_def
      split: option.splits slval.splits sum.splits if_splits)

lemma label_step_entered:
  assumes st: "label_step d = Inr d'" and a: "d ''label'' = Some (SArray a)"
    and mx: "Max (set (flat a)) > 1"
  shows "d' ''label'' = Some (SArray (foreground a))"
proof -
  from st obtain md where md: "d ''label_meta_dict'' = Some md"
    by (cases "d ''label_meta_dict''") (simp_all add: label_step_def)
  from st md a have ne: "flat a \<noteq> []"
    by (cases "flat a = []") (simp_all add: label_step_def)
  from st md a ne mx obtain m where m: "md = SMeta m"
    by (cases md) (simp_all add: label_step_def)
  from st md a ne mx m obtain m' where
    "d' = d(''label'' \<mapsto> SArray (foreground a), ''label_meta_dict'' \<mapsto> SMeta m')"
    by (cases "log_filename m"; cases "patch_meta m") (auto simp: label_step_def bind_err_def)
  then show ?thesis by simp
qed

lemma image_step_entered:
  assumes st: "image_step d = Inr d'" and m: "d ''image_meta_dict'' = Some (SMeta m)"
    and p: "meta_getitem m ''pixdim'' 4 = Inr p" and pos: "p > 0"
  shows "\<exists>m'. d' ''image_meta_dict'' = Some (SMeta m') \<and> meta_getitem m' ''pixdim'' 4 = Inr 0"
proof -
  from image_step_done [OF st] obtain m' q where
    m': "d' ''image_meta_dict'' = Some (SMeta m')" and q: "meta_getitem m' ''pixdim'' 4 = Inr q"
    and q0: "q \<le> 0"
    by (auto simp: image_done_def split: option.splits slval.splits sum.splits)
  have "d' \<noteq> d" using m p pos m' q q0 by auto
  with st m p pos obtain a a' m2 where
    "patch_meta m = Inr m2" "d' = d(''image'' \<mapsto> SArray a', ''image_meta_dict'' \<mapsto> SMeta m2)"
    by (cases "log_filename m"; cases "d ''image''")
      (auto simp: image_step_def bind_err_def split: slval.splits sum.splits)
  then show ?thesis using patch_meta_pixdim by simp
qed

lemma single_loop_done:
  "single_loop ks d = Inr d' \<Longrightarrow>
   (''label'' \<in> set ks \<or> label_done d \<longrightarrow> label_done d') \<and>
   (''image'' \<in> set ks \<or> image_done d \<longrightarrow> image_done d')"
proof (induction ks arbitrary: d)
  case Nil
  then show ?case by simp
next
  case (Cons key ks)
  from Cons.prems obtain d1 where
    s1: "(if key = ''label'' then label_step d else Inr d) = Inr d1"
    by (cases "if key = ''label'' then label_step d else Inr d") (simp_all add: bind_err_def)
  with Cons.prems obtain d2 where
    s2: "(if key = ''image'' then image_step d1 else Inr d1) = Inr d2"
    by (cases "if key = ''image'' then image_step d1 else Inr d1") (simp_all add: bind_err_def)
  from Cons.prems s1 s2 have r: "single_loop ks d2 = Inr d'"
    by (simp add: bind_err_def)
  have li: "(key = ''label'' \<or> label_done d \<longrightarrow> label_done d2) \<and>
            (key = ''image'' \<or> image_done d \<longrightarrow> image_done d2)"
  proof (cases "key = ''label''")
    case True
    then have st: "label_step d = Inr d1" and e: "d2 = d1" using s1 s2 by simp_all
    show ?thesis
      using True e label_step_done [OF st] label_step_keeps_image [OF st] by simp
  next
    case nl: False
    then have e1: "d1 = d" using s1 by simp
    show ?thesis
    proof (cases "key = ''image''")
      case True
      then have st: "image_step d = Inr d2" using s2 e1 by simp
      show ?thesis
        using nl True image_step_done [OF st] image_step_keeps_label [OF st] by simp
    next
      case False
      then have "d2 = d" using s2 e1 by simp
      then show ?thesis using nl False by simp
    qed
  qed
  from Cons.IH [OF r] have
    "(''label'' \<in> set ks \<or> label_done d2 \<longrightarrow> label_done d') \<and>
     (''image'' \<in> set ks \<or> image_done d2 \<longrightarrow> image_done d')" .
  with li show ?case by (simp only: list.set insert_iff) blast
qed

lemma single_loop_fixed:
  "(''label'' \<in> set ks \<longrightarrow> label_done d) \<Longrightarrow> (''image'' \<in> set ks \<longrightarrow> image_done d) \<Longrightarrow>
   single_loop ks d = Inr d"
  by (induction ks) (auto simp: bind_err_def label_done_fixed image_done_fixed)

text \<open>
  Claim C7.  \<^verbatim>\<open>SingleLabelSingleModalityd\<close> is idempotent: for every record and every
  list of keys, applying the transform to its own result returns that result unchanged,
  and chaining two applications equals one application also where the first raises (the
  first conjunct, with the exception as a value).  After an application that returns,
  neither branch is entered again: when \<^verbatim>\<open>"label"\<close> is among the keys the label has a
  maximum of at most 1, when \<^verbatim>\<open>"image"\<close> is among the keys \<^verbatim>\<open>pixdim[4]\<close> of the image
  metadata is not positive.  Where the label branch is entered the new label is the
  indicator of \<open>label > 0\<close>; where the modality branch is entered \<^verbatim>\<open>pixdim[4]\<close> becomes
  0.
\<close>

theorem single_label_single_modality_idempotent:
  "bind_err (single_call self d) (single_call self) = single_call self d
   \<and> (\<forall>d'. single_call self d = Inr d' \<longrightarrow>
          single_call self d' = Inr d'
          \<and> (''label'' \<in> set (keys self) \<longrightarrow> label_done d')
          \<and> (''image'' \<in> set (keys self) \<longrightarrow> image_done d'))
   \<and> (\<forall>d' a. label_step d = Inr d' \<and> d ''label'' = Some (SArray a) \<and> Max (set (flat a)) > 1 \<longrightarrow>
          d' ''label'' = Some (SArray (foreground a)) \<and> Max (set (flat (foreground a))) \<le> 1)
   \<and> (\<forall>d' m p. image_step d = Inr d' \<and> d ''image_meta_dict'' = Some (SMeta m)
                 \<and> meta_getitem m ''pixdim'' 4 = Inr p \<and> p > 0 \<longrightarrow>
          (\<exists>m'. d' ''image_meta_dict'' = Some (SMeta m') \<and> meta_getitem m' ''pixdim'' 4 = Inr 0))"
proof -
  have twice: "single_call self d' = Inr d' \<and> (''label'' \<in> set (keys self) \<longrightarrow> label_done d')
          \<and> (''image'' \<in> set (keys self) \<longrightarrow> image_done d')"
    if "single_call self d = Inr d'" for d'
  proof -
    from that have "single_loop (keys self) d = Inr d'" by (simp add: single_call_def)
    from single_loop_done [OF this]
    have l: "''label'' \<in> set (keys self) \<longrightarrow> label_done d'"
      and i: "''image'' \<in> set (keys self) \<longrightarrow> image_done d'" by auto
    with single_loop_fixed [of "keys self" d'] show ?thesis by (simp add: single_call_def)
  qed
  have kl: "bind_err (single_call self d) (single_call self) = single_call self d"
    using twice by (cases "single_call self d") (simp_all add: bind_err_def)
  have lab: "d' ''label'' = Some (SArray (foreground a)) \<and> Max (set (flat (foreground a))) \<le> 1"
    if "label_step d = Inr d'" "d ''label'' = Some (SArray a)" "Max (set (flat a)) > 1" for d' a
  proof -
    from that have ne: "flat a \<noteq> []"
      by (cases "d ''label_meta_dict''"; cases "flat a = []") (simp_all add: label_step_def)
    from label_step_entered [OF that] foreground_max [OF ne] show ?thesis by (simp del: Max_le_iff)
  qed
  have img: "\<exists>m'. d' ''image_meta_dict'' = Some (SMeta m') \<and> meta_getitem m' ''pixdim'' 4 = Inr 0"
    if "image_step d = Inr d'" "d ''image_meta_dict'' = Some (SMeta m)"
      "meta_getitem m ''pixdim'' 4 = Inr p" "p > 0" for d' m p
    using image_step_entered [OF that] .
  have c2: "\<forall>d'. single_call self d = Inr d' \<longrightarrow>
          single_call self d' = Inr d'
          \<and> (''label'' \<in> set (keys self) \<longrightarrow> label_done d')
          \<and> (''image'' \<in> set (keys self) \<longrightarrow> image_done d')"
    using twice by (intro allI impI)
  have c3: "\<forall>d' a. label_step d = Inr d' \<and> d ''label'' = Some (SArray a) \<and> Max (set (flat a)) > 1 \<longrightarrow>
          d' ''label'' = Some (SArray (foreground a)) \<and> Max (set (flat (foreground a))) \<le> 1"
    using lab by (intro allI impI) (elim conjE)
  have c4: "\<forall>d' m p. image_step d = Inr d' \<and> d ''image_meta_dict'' = Some (SMeta m)
                 \<and> meta_getitem m ''pixdim'' 4 = Inr p \<and> p > 0 \<longrightarrow>
          (\<exists>m'. d' ''image_meta_dict'' = Some (SMeta m') \<and> meta_getitem m' ''pixdim'' 4 = Inr 0)"
    using img by (intro allI impI) (elim conjE)
  show ?thesis by (intro conjI kl c2 c3 c4)
qed

lemma upt2: "[0..<2] = [0, Suc 0]"
  by (simp add: numeral_2_eq_2)

lemma example_single_call: "single_call example_single example_record = Inr example_result"
  unfolding example_result_def
  apply (simp add: single_call_def example_single_def example_record_def bind_err_def
      label_step_def image_step_def log_filename_def patch_meta_def meta_setitem_def
      meta_getitem_def foreground_def first_of_last_axis_def upt2)
  apply (simp add: fun_upd_def fun_eq_iff)
  done

theorem single_label_single_modality_idempotent_witness:
  "single_call example_single example_record = Inr example_result
   \<and> single_call example_single example_result = Inr example_result
   \<and> example_result ''label'' = Some (SArray \<lparr>shape = [2, 2], flat = [0, 1, 1, 1]\<rparr>)
   \<and> example_result ''image'' = Some (SArray \<lparr>shape = [1, 2], flat = [5, 7]\<rparr>)
   \<and> label_done example_result \<and> image_done example_result"
proof -
  note r = example_single_call
  have k: "''label'' \<in> set (keys example_single)" "''image'' \<in> set (keys example_single)"
    by (simp_all add: example_single_def)
  have "\<forall>d'. single_call example_single example_record = Inr d' \<longrightarrow>
          single_call example_single d' = Inr d'
          \<and> (''label'' \<in> set (keys example_single) \<longrightarrow> label_done d')
          \<and> (''image'' \<in> set (keys example_single) \<longrightarrow> image_done d')"
    using single_label_single_modality_idempotent [of example_single example_record]
    by (rule conjunct1 [OF conjunct2])
  then have "single_call example_single example_result = Inr example_result
          \<and> (''label'' \<in> set (keys example_single) \<longrightarrow> label_done example_result)
          \<and> (''image'' \<in> set (keys example_single) \<longrightarrow> image_done example_result)"
    using r by (elim allE [of _ example_result]) (erule impE, assumption+)
  with k have t: "single_call example_single example_result = Inr example_result"
    "label_done example_result" "image_done example_result" by simp_all
  have l: "example_result ''label'' = Some (SArray \<lparr>shape = [2, 2], flat = [0, 1, 1, 1]\<rparr>)"
    and i: "example_result ''image'' = Some (SArray \<lparr>shape = [1, 2], flat = [5, 7]\<rparr>)"
    by (simp_all add: example_result_def)
  from r t l i show ?thesis by (intro conjI)
qed

section \<open>The sampler: distance transform, exponential weights, weighted draw\<close>

lemma searchsorted_cumsum:
  "acc \<le> u \<Longrightarrow> u < acc + sum_list p \<Longrightarrow>
   searchsorted_right (cumsum acc p) u < length p \<and>
   acc + sum_list (take (searchsorted_right (cumsum acc p) u) p) \<le> u \<and>
   u < acc + sum_list (take (Suc (searchsorted_right (cumsum acc p) u)) p)"
proof (induction p arbitrary: acc)
  case Nil
  then show ?case by simp
next
  case (Cons x xs)
  show ?case
  proof (cases "acc + x \<le> u")
    case True
    with Cons.prems have "u < (acc + x) + sum_list xs" by simp
    from Cons.IH [OF True this] True show ?thesis
      by (simp add: searchsorted_right_def add.assoc)
  next
    case False
    with Cons.prems show ?thesis by (simp add: searchsorted_right_def)
  qed
qed

lemma choice_interval:
  assumes a: "length p = length a" and nn: "\<not> list_ex (\<lambda>x. x < 0) p" and s: "sum_list p = 1"
    and u: "0 \<le> rs 0" "rs 0 < 1"
  shows "\<exists>k<length a. sum_list (take k p) \<le> rs 0 \<and> rs 0 < sum_list (take (Suc k) p) \<and>
           choice rs a p = (Inr (a ! k), \<lambda>n. rs (Suc n))"
proof -
  let ?k = "searchsorted_right (cumsum 0 p) (rs 0)"
  from searchsorted_cumsum [of 0 "rs 0" p] u s
  have k: "?k < length p" "sum_list (take ?k p) \<le> rs 0" "rs 0 < sum_list (take (Suc ?k) p)"
    by simp_all
  from k(1) a have ne: "a \<noteq> []" by auto
  have "choice rs a p = (Inr (a ! ?k), \<lambda>n. rs (Suc n))"
    using a nn s k(1) ne by (simp add: choice_def)
  with k a show ?thesis by (intro exI [of _ ?k]) simp
qed

lemma positive_indices_empty:
  "(positive_indices m = []) = (\<forall>v\<in>set (flat m). \<not> v > 0)"
  by (fastforce simp: positive_indices_def filter_empty_conv in_set_conv_nth)

lemma positive_count:
  "(length (filter (\<lambda>v. v > 0) (flat m)) > 0) = (positive_indices m \<noteq> [])"
  by (simp add: positive_indices_empty filter_empty_conv)

lemma positive_indices_bound: "i \<in> set (positive_indices m) \<Longrightarrow> i < length (flat m) \<and> flat m ! i > 0"
  by (simp add: positive_indices_def)

lemma arg_find_guidance_none:
  assumes len: "length (flat (cdt m)) = length (flat m)"
  shows "arg_find_guidance cdt rs m None =
     (if positive_indices m = [] then (Inr None, rs)
      else if overflows (seed_distances cdt m) then (Inl ValueError, rs)
      else if sum_list (seed_weights cdt m) = 0 then (Inl ValueError, rs)
      else case choice rs (positive_indices m) (seed_probabilities cdt m) of
             (Inl e, rs') \<Rightarrow> (Inl e, rs')
           | (Inr seed, rs') \<Rightarrow>
               (case unravel_index seed (shape m) of
                  Inl e \<Rightarrow> (Inl e, rs')
                | Inr [] \<Rightarrow> (Inl IndexError, rs')
                | Inr (g0 # g) \<Rightarrow> (Inr (Some (flat (cdt m) ! seed # map real g)), rs')))"
proof -
  have sd: "map ((!) (flat (cdt m))) (positive_indices m) = seed_distances cdt m"
    by (simp add: seed_distances_def)
  let ?d = "flat (cdt m)"
  let ?pr = "map (\<lambda>x. exp x - 1) ?d"
  have idx: "filter (\<lambda>i. flat m ! i > 0) [0..<length (flat m)] = positive_indices m"
    by (simp add: positive_indices_def)
  have inb: "\<not> list_ex (\<lambda>i. length ?pr \<le> i) (positive_indices m)"
    using positive_indices_bound [of _ m] len by (fastforce simp: list_ex_iff)
  have w: "map ((!) ?pr) (positive_indices m) = seed_weights cdt m"
    unfolding seed_weights_def using positive_indices_bound [of _ m] len by (intro map_cong) auto
  have p: "map (\<lambda>i. ?pr ! i / sum_list (seed_weights cdt m)) (positive_indices m)
      = seed_probabilities cdt m"
    unfolding seed_probabilities_def seed_weights_def map_map comp_def
    using positive_indices_bound [of _ m] len by (intro map_cong) auto
  show ?thesis
    unfolding arg_find_guidance_def Let_def
    by (simp only: option.case sum.case idx positive_count inb w p sd if_False if_True
        split: if_splits) simp
qed

lemma sum_list_divide: "sum_list (map (\<lambda>x. x / c) xs) = sum_list xs / (c::real)"
  by (induction xs) (simp_all add: add_divide_distrib)

lemma seed_probabilities_sum:
  "sum_list (seed_weights cdt m) \<noteq> 0 \<Longrightarrow> sum_list (seed_probabilities cdt m) = 1"
  by (simp add: seed_probabilities_def sum_list_divide)

lemma unravel_nonempty: "s \<noteq> [] \<Longrightarrow> unravel i s = hd (unravel i s) # tl (unravel i s)"
  by (cases s) simp_all

text \<open>
  Claim C1, restricted to finite weights.  With no weight map, \<^verbatim>\<open>find_guidance\<close> returns
  \<open>None\<close> (and draws nothing) when the mask has no positive voxel.  When it has one, when
  the mask is a well-formed array with at least one axis, the distance transform keeps the
  number of voxels and the uniform draw \<open>rs 0\<close> lies in \<open>[0, 1)\<close>, the seed is selected
  by the three steps: the distance transform of the mask; the weight \<open>exp(distance) - 1\<close>
  of every positive voxel (\<open>seed_weights\<close>); one draw among the positive flat indices
  (\<open>positive_indices\<close>) with the weights normalised over them as probabilities
  (\<open>seed_probabilities\<close>): the index at position \<open>k\<close> is the seed exactly for the draws
  in the interval from the sum of the first \<open>k\<close> probabilities up to the sum of the first
  \<open>k + 1\<close>, an interval whose length is the probability at \<open>k\<close>.  This holds unless a
  weight or the sum of the weights overflows (\<open>overflows\<close>: a distance above
  \<open>exp_max_arg\<close>, so a chamfer distance of 710 or more, or a sum above \<open>dbl_max\<close>), the
  weights sum to zero, or a probability is negative: then \<^verbatim>\<open>R.choice\<close> raises
  \<open>ValueError\<close> and no seed is selected.  The returned list has the distance of the seed
  in front of the unravelled index without its first component.
\<close>

theorem find_guidance_three_steps:
  "((\<forall>v\<in>set (flat m). \<not> v > 0) \<longrightarrow> arg_find_guidance cdt rs m None = (Inr None, rs))
   \<and> ((\<exists>v\<in>set (flat m). v > 0) \<and> wf_array m \<and> shape m \<noteq> []
        \<and> length (flat (cdt m)) = length (flat m) \<and> 0 \<le> rs 0 \<and> rs 0 < 1 \<longrightarrow>
        (if overflows (seed_distances cdt m) \<or> sum_list (seed_weights cdt m) = 0
            \<or> list_ex (\<lambda>x. x < 0) (seed_probabilities cdt m)
         then arg_find_guidance cdt rs m None = (Inl ValueError, rs)
         else \<exists>k<length (positive_indices m).
                sum_list (take k (seed_probabilities cdt m)) \<le> rs 0 \<and>
                rs 0 < sum_list (take (Suc k) (seed_probabilities cdt m)) \<and>
                arg_find_guidance cdt rs m None =
                  (Inr (Some (flat (cdt m) ! (positive_indices m ! k)
                              # map real (tl (unravel (positive_indices m ! k) (shape m))))),
                   \<lambda>n. rs (Suc n))))"
proof (intro conjI impI)
  assume "\<forall>v\<in>set (flat m). \<not> v > 0"
  then have "filter (\<lambda>v. v > 0) (flat m) = []" by (simp add: filter_empty_conv)
  then show "arg_find_guidance cdt rs m None = (Inr None, rs)"
    by (simp add: arg_find_guidance_def Let_def)
next
  assume h: "(\<exists>v\<in>set (flat m). v > 0) \<and> wf_array m \<and> shape m \<noteq> []
        \<and> length (flat (cdt m)) = length (flat m) \<and> 0 \<le> rs 0 \<and> rs 0 < 1"
  then have ne: "positive_indices m \<noteq> []" by (simp add: positive_indices_empty)
  from h have len: "length (flat (cdt m)) = length (flat m)" and wf: "wf_array m"
    and nd: "shape m \<noteq> []" and u: "0 \<le> rs 0" "rs 0 < 1" by simp_all
  note nf = arg_find_guidance_none [of cdt m rs, OF len]
  let ?idx = "positive_indices m" and ?p = "seed_probabilities cdt m"
  have lp: "length ?p = length ?idx" by (simp add: seed_probabilities_def seed_weights_def)
  show "if overflows (seed_distances cdt m) \<or> sum_list (seed_weights cdt m) = 0
            \<or> list_ex (\<lambda>x. x < 0) ?p
         then arg_find_guidance cdt rs m None = (Inl ValueError, rs)
         else \<exists>k<length ?idx.
                sum_list (take k ?p) \<le> rs 0 \<and> rs 0 < sum_list (take (Suc k) ?p) \<and>
                arg_find_guidance cdt rs m None =
                  (Inr (Some (flat (cdt m) ! (?idx ! k) # map real (tl (unravel (?idx ! k) (shape m))))),
                   \<lambda>n. rs (Suc n))"
  proof (cases "overflows (seed_distances cdt m) \<or> sum_list (seed_weights cdt m) = 0
            \<or> list_ex (\<lambda>x. x < 0) ?p")
    case True
    then have "arg_find_guidance cdt rs m None = (Inl ValueError, rs)"
      using ne by (auto simp: nf choice_def)
    with True show ?thesis by simp
  next
    case False
    then have s1: "sum_list ?p = 1" and nn: "\<not> list_ex (\<lambda>x. x < 0) ?p"
      and s0: "sum_list (seed_weights cdt m) \<noteq> 0" and no: "\<not> overflows (seed_distances cdt m)"
      by (simp_all add: seed_probabilities_sum)
    from choice_interval [of ?p ?idx rs, OF lp nn s1 u] obtain k where k: "k < length ?idx"
      and lo: "sum_list (take k ?p) \<le> rs 0" and hi: "rs 0 < sum_list (take (Suc k) ?p)"
      and c: "choice rs ?idx ?p = (Inr (?idx ! k), \<lambda>n. rs (Suc n))" by blast
    from k have "?idx ! k \<in> set ?idx" by simp
    then have "?idx ! k < prod_list (shape m)"
      using positive_indices_bound [of "?idx ! k" m] wf by (simp add: wf_array_def)
    then have un: "unravel_index (?idx ! k) (shape m)
        = Inr (hd (unravel (?idx ! k) (shape m)) # tl (unravel (?idx ! k) (shape m)))"
      using unravel_nonempty [OF nd, of "?idx ! k"] by (simp add: unravel_index_def)
    have "arg_find_guidance cdt rs m None =
                  (Inr (Some (flat (cdt m) ! (?idx ! k) # map real (tl (unravel (?idx ! k) (shape m))))),
                   \<lambda>n. rs (Suc n))"
      using ne s0 no by (simp add: nf c un)
    with k lo hi have "\<exists>k<length ?idx.
                sum_list (take k ?p) \<le> rs 0 \<and> rs 0 < sum_list (take (Suc k) ?p) \<and>
                arg_find_guidance cdt rs m None =
                  (Inr (Some (flat (cdt m) ! (?idx ! k) # map real (tl (unravel (?idx ! k) (shape m))))),
                   \<lambda>n. rs (Suc n))" by blast
    with False show ?thesis by (simp only: if_False)
  qed
qed

lemma example_mask_cdt: "flat (distance_transform_cdt example_mask) = [2, 1, 0]"
  by (simp add: example_mask_def distance_transform_cdt_def chebyshev_def upt_conv_Cons)

lemma example_mask_idx: "positive_indices example_mask = [0, 1]"
  by (simp add: example_mask_def positive_indices_def upt_conv_Cons)

lemma example_mask_weights:
  "seed_weights distance_transform_cdt example_mask = [exp 2 - 1, exp 1 - 1]"
  by (simp add: seed_weights_def example_mask_idx example_mask_cdt)

theorem find_guidance_three_steps_witness:
  "(\<exists>v\<in>set (flat example_mask). v > 0) \<and> wf_array example_mask \<and> shape example_mask \<noteq> []
   \<and> length (flat (distance_transform_cdt example_mask)) = length (flat example_mask)
   \<and> seed_weights distance_transform_cdt example_mask = [exp 2 - 1, exp 1 - 1]
   \<and> arg_find_guidance distance_transform_cdt (\<lambda>n. 0) example_mask None
        = (Inr (Some [2, 0]), \<lambda>n. 0)"
proof -
  let ?w = "seed_weights distance_transform_cdt example_mask"
  let ?p = "seed_probabilities distance_transform_cdt example_mask"
  have h1: "\<exists>v\<in>set (flat example_mask). v > 0" by (simp add: example_mask_def)
  have h2: "wf_array example_mask" by (simp add: example_mask_def wf_array_def)
  have h3: "shape example_mask \<noteq> []" by (simp add: example_mask_def)
  have h4: "length (flat (distance_transform_cdt example_mask)) = length (flat example_mask)"
    by (simp add: example_mask_cdt) (simp add: example_mask_def)
  have e2: "exp (2::real) - 1 > 0" and e1: "exp (1::real) - 1 > 0" by simp_all
  have s: "sum_list ?w > 0"
    unfolding example_mask_weights sum_list.Cons sum_list.Nil using e1 e2 by linarith
  have p: "?p = [(exp 2 - 1) / sum_list ?w, (exp 1 - 1) / sum_list ?w]"
    by (simp add: seed_probabilities_def example_mask_weights)
  have p0: "(exp 2 - 1) / sum_list ?w > 0" and p1: "(exp 1 - 1) / sum_list ?w > 0"
    using s e1 e2 by simp_all
  have n0: "\<not> (exp 2 - 1) / sum_list ?w < 0" and n1: "\<not> (exp 1 - 1) / sum_list ?w < 0"
    using p0 p1 by (simp_all only: not_less less_imp_le)
  have sn: "sum_list ?w \<noteq> 0" using s by (simp only: less_imp_neq [THEN not_sym] not_False_eq_True)
  have no: "\<not> overflows (seed_distances distance_transform_cdt example_mask)"
    using not_overflows_two_one by (simp add: seed_distances_def example_mask_idx example_mask_cdt)
  have valid: "\<not> (overflows (seed_distances distance_transform_cdt example_mask)
                  \<or> sum_list ?w = 0 \<or> list_ex (\<lambda>x. x < 0) ?p)"
    unfolding p list_ex_Cons_iff list_ex_Nil_iff using no sn n0 n1 by blast
  from find_guidance_three_steps [of example_mask distance_transform_cdt "\<lambda>n. 0"] h1 h2 h3 h4 valid
  obtain k where k: "k < length (positive_indices example_mask)"
    and lo: "sum_list (take k ?p) \<le> 0"
    and r: "arg_find_guidance distance_transform_cdt (\<lambda>n. 0) example_mask None =
                  (Inr (Some (flat (distance_transform_cdt example_mask) ! (positive_indices example_mask ! k)
                              # map real (tl (unravel (positive_indices example_mask ! k) (shape example_mask))))),
                   \<lambda>n. 0)"
    by auto
  have "k = 0"
  proof (rule ccontr)
    assume "k \<noteq> 0"
    with k have "k = 1" by (simp add: example_mask_idx)
    with lo p0 show False by (simp add: p)
  qed
  with r have "arg_find_guidance distance_transform_cdt (\<lambda>n. 0) example_mask None
        = (Inr (Some [2, 0]), \<lambda>n. 0)"
    by (simp add: example_mask_idx example_mask_cdt) (simp add: example_mask_def)
  with h1 h2 h3 h4 example_mask_weights show ?thesis by (intro conjI)
qed

section \<open>Inputs on which two claims fail as stated\<close>

lemma overflow_mask_background:
  "filter (\<lambda>j. flat overflow_mask ! j = 0) [0..<length (flat overflow_mask)] = [710]"
proof -
  have a: "[0..<711] = [0..<710] @ [710]"
    using upt_Suc_append [of 0 710] by simp
  have b: "filter (\<lambda>j. (replicate 710 (1::real) @ [0]) ! j = 0) [0..<710] = []"
    by (simp add: filter_empty_conv nth_append)
  have c: "(replicate 710 (1::real) @ [0]) ! 710 = 0"
    by (simp add: nth_append)
  show ?thesis
    unfolding overflow_mask_def by (simp add: a b c del: upt_Suc)
qed

lemma overflow_mask_distance: "flat (distance_transform_cdt overflow_mask) ! 0 = 710"
proof -
  have "flat overflow_mask \<noteq> []" by (simp add: overflow_mask_def)
  then have l: "0 < length (flat overflow_mask)" by simp
  have u: "unravel 0 (shape overflow_mask) = [0, 0]" "unravel 710 (shape overflow_mask) = [0, 710]"
    by (simp_all add: overflow_mask_def)
  show ?thesis
    unfolding distance_transform_cdt_def Let_def overflow_mask_background
    using l by (simp add: u chebyshev_def)
qed

text \<open>
  Claim C1 does not hold for every mask with a positive voxel.  In \<open>overflow_mask\<close> the
  first voxel is positive and has chamfer distance 710; \<^verbatim>\<open>np.exp(710)\<close> is infinite, the
  normalised weights hold NaN, and \<^verbatim>\<open>find_guidance\<close> raises \<open>ValueError\<close> where the claim
  has it select a seed.
\<close>

theorem find_guidance_overflow_counterexample:
  "flat overflow_mask ! 0 > 0
   \<and> wf_array overflow_mask
   \<and> flat (distance_transform_cdt overflow_mask) ! 0 = 710
   \<and> arg_find_guidance distance_transform_cdt (\<lambda>n. 0) overflow_mask None
        = (Inl ValueError, \<lambda>n. 0)"
proof -
  have p: "flat overflow_mask ! 0 > 0" by (simp add: overflow_mask_def nth_append)
  have w: "wf_array overflow_mask" by (simp add: overflow_mask_def wf_array_def)
  have "0 < length (flat overflow_mask)" by (simp add: overflow_mask_def)
  with p have i: "0 \<in> set (positive_indices overflow_mask)"
    by (simp add: positive_indices_def)
  then have ne: "positive_indices overflow_mask \<noteq> []" by auto
  from i have "flat (distance_transform_cdt overflow_mask) ! 0
      \<in> set (seed_distances distance_transform_cdt overflow_mask)"
    unfolding seed_distances_def by (simp only: set_map) (rule imageI)
  then have "710 \<in> set (seed_distances distance_transform_cdt overflow_mask)"
    by (simp only: overflow_mask_distance)
  moreover have "(710::real) > exp_max_arg" by (simp add: exp_max_arg_def)
  ultimately have o: "overflows (seed_distances distance_transform_cdt overflow_mask)"
    unfolding overflows_def list_ex_iff by blast
  have "arg_find_guidance distance_transform_cdt (\<lambda>n. 0) overflow_mask None
        = (Inl ValueError, \<lambda>n. 0)"
    using arg_find_guidance_none [of distance_transform_cdt overflow_mask "\<lambda>n. 0"] ne o
    by (simp add: distance_transform_cdt_def Let_def)
  with p w overflow_mask_distance show ?thesis by (intro conjI)
qed

text \<open>
  Claim C6 does not hold for every image.  For an image of shape \<open>(C, H, W)\<close>, a layout
  the docstrings of the module list, the signal built from the last three extents has
  four axes and can be neither assigned to a channel (first image, \<open>C = n + 2\<close>) nor
  concatenated (second image): \<^verbatim>\<open>_apply\<close> raises \<open>ValueError\<close>.
\<close>

theorem discard_add_guidance_3d_counterexample:
  "discard_probability example_discard \<ge> 1
   \<and> fst (discard_apply example_discard (\<lambda>n. 0)
            (PArray \<lparr>shape = [3, 1, 2], flat = [1, 2, 3, 4, 5, 6]\<rparr>)) = Inl ValueError
   \<and> fst (discard_apply example_discard (\<lambda>n. 0)
            (PArray \<lparr>shape = [2, 1, 2], flat = [1, 2, 3, 4]\<rparr>)) = Inl ValueError"
  by (simp add: example_discard_def discard_apply_def shape_at_def py_index_def bind_err_def
      setitem_def concatenate_def np_zeros_def Let_def)

section \<open>The weighted draw is well defined\<close>

lemma unravel_inj:
  assumes "i < prod_list s" "j < prod_list s" "unravel i s = unravel j s"
  shows "i = j"
proof -
  have "i = ravel_multi_index (unravel i s) s" using assms(1) by (simp only: ravel_unravel)
  also have "\<dots> = ravel_multi_index (unravel j s) s" by (simp only: assms(3))
  also have "\<dots> = j" using assms(2) by (simp only: ravel_unravel)
  finally show ?thesis .
qed

lemma chebyshev_zero:
  "length p = length q \<Longrightarrow> chebyshev p q = 0 \<Longrightarrow> p = q"
  unfolding chebyshev_def
  by (induction p q rule: list_induct2) simp_all

lemma chebyshev_distinct:
  assumes "i < prod_list s" "j < prod_list s" "i \<noteq> j"
  shows "1 \<le> chebyshev (unravel i s) (unravel j s)"
proof -
  have "chebyshev (unravel i s) (unravel j s) \<noteq> 0"
    using chebyshev_zero [of "unravel i s" "unravel j s"] unravel_inj [OF assms(1,2)] assms(3)
    by (auto simp: length_unravel)
  then show ?thesis by simp
qed

lemma foldr_min_ge:
  "\<forall>x\<in>set xs. (c::nat) \<le> x \<Longrightarrow> c \<le> x0 \<Longrightarrow> c \<le> foldr min xs x0"
  by (induction xs) simp_all

lemma cdt_flat_length: "length (flat (distance_transform_cdt m)) = length (flat m)"
  by (simp add: distance_transform_cdt_def Let_def)

lemma cdt_no_background:
  assumes "\<not> list_ex (\<lambda>v. v = 0) (flat m)" and "i < length (flat m)"
  shows "flat (distance_transform_cdt m) ! i = - 1"
proof -
  have "flat m ! j \<noteq> 0" if "j < length (flat m)" for j
  proof
    assume "flat m ! j = 0"
    with that have "0 \<in> set (flat m)" by (metis nth_mem)
    then show False using assms(1) by (simp add: list_ex_iff)
  qed
  then have "filter (\<lambda>j. flat m ! j = 0) [0..<length (flat m)] = []"
    by (simp add: filter_empty_conv)
  then show ?thesis using assms(2) by (simp add: distance_transform_cdt_def Let_def)
qed

lemma cdt_foreground:
  assumes wf: "wf_array m" and bg: "list_ex (\<lambda>v. v = 0) (flat m)"
    and i: "i < length (flat m)" and fg: "flat m ! i \<noteq> 0"
  shows "1 \<le> flat (distance_transform_cdt m) ! i"
proof -
  let ?bg = "filter (\<lambda>j. flat m ! j = 0) [0..<length (flat m)]"
  from bg obtain j0 where "j0 < length (flat m)" "flat m ! j0 = 0"
    by (auto simp: list_ex_iff in_set_conv_nth)
  then have ne: "?bg \<noteq> []" by (auto simp: filter_empty_conv)
  have mem: "\<And>j. j \<in> set ?bg \<Longrightarrow> j < prod_list (shape m) \<and> j \<noteq> i"
    using wf fg by (auto simp: wf_array_def)
  have ip: "i < prod_list (shape m)" using wf i by (simp add: wf_array_def)
  have each: "\<forall>x\<in>set (map (\<lambda>j. chebyshev (unravel i (shape m)) (unravel j (shape m))) ?bg). 1 \<le> x"
    using mem chebyshev_distinct [OF ip] by (simp only: set_map) blast
  have "hd ?bg \<in> set ?bg" using ne by (rule hd_in_set)
  then have h: "1 \<le> chebyshev (unravel i (shape m)) (unravel (hd ?bg) (shape m))"
    using mem chebyshev_distinct [OF ip] by blast
  have "1 \<le> foldr min (map (\<lambda>j. chebyshev (unravel i (shape m)) (unravel j (shape m))) ?bg)
                 (chebyshev (unravel i (shape m)) (unravel (hd ?bg) (shape m)))"
    using foldr_min_ge [OF each h] .
  then show ?thesis using ne i by (simp add: distance_transform_cdt_def Let_def)
qed

lemma sum_list_positive: "xs \<noteq> [] \<Longrightarrow> \<forall>x\<in>set xs. (0::real) < x \<Longrightarrow> 0 < sum_list xs"
proof (induction xs)
  case Nil
  then show ?case by simp
next
  case (Cons x xs)
  show ?case
  proof (cases "xs = []")
    case True
    with Cons.prems show ?thesis by simp
  next
    case False
    with Cons have "0 < sum_list xs" by simp
    with Cons.prems show ?thesis by simp
  qed
qed

lemma sum_list_negative: "xs \<noteq> [] \<Longrightarrow> \<forall>x\<in>set xs. x < (0::real) \<Longrightarrow> sum_list xs < 0"
proof (induction xs)
  case Nil
  then show ?case by simp
next
  case (Cons x xs)
  show ?case
  proof (cases "xs = []")
    case True
    with Cons.prems show ?thesis by simp
  next
    case False
    with Cons have "sum_list xs < 0" by simp
    with Cons.prems show ?thesis by simp
  qed
qed

lemma pnc_find_guidance_arg:
  "pnc_find_guidance cdt rs m w = arg_find_guidance cdt rs m w"
  by (simp add: pnc_find_guidance_def arg_find_guidance_def)

lemma seed_distances_foreground:
  assumes wf: "wf_array m" and bg: "list_ex (\<lambda>v. v = 0) (flat m)"
  shows "\<forall>x\<in>set (seed_distances distance_transform_cdt m). 1 \<le> x"
proof
  fix x assume "x \<in> set (seed_distances distance_transform_cdt m)"
  then obtain i where i: "i \<in> set (positive_indices m)"
    and x: "x = flat (distance_transform_cdt m) ! i"
    by (auto simp: seed_distances_def)
  from positive_indices_bound [OF i] have "i < length (flat m)" "flat m ! i \<noteq> 0" by simp_all
  from cdt_foreground [OF wf bg this] x show "1 \<le> x" by simp
qed

lemma seed_distances_no_background:
  assumes "\<not> list_ex (\<lambda>v. v = 0) (flat m)"
  shows "\<forall>x\<in>set (seed_distances distance_transform_cdt m). x = - 1"
proof
  fix x assume "x \<in> set (seed_distances distance_transform_cdt m)"
  then obtain i where i: "i \<in> set (positive_indices m)"
    and x: "x = flat (distance_transform_cdt m) ! i"
    by (auto simp: seed_distances_def)
  from positive_indices_bound [OF i] have "i < length (flat m)" by simp
  from cdt_no_background [OF assms this] x show "x = - 1" by simp
qed

lemma seed_weights_distances:
  "seed_weights cdt m = map (\<lambda>x. exp x - 1) (seed_distances cdt m)"
  by (simp add: seed_weights_def seed_distances_def)

text \<open>
  Claim C3, with the two cases of the distance transform.  The mask is a well-formed array
  with a positive voxel, there is no weight map, and no weight overflows.  If the mask has
  a zero voxel, every selected index has chamfer distance at least 1, its weight
  \<open>exp(distance) - 1\<close> is positive and the sum of the weights is positive.  If the mask has
  no zero voxel, every selected index has distance \<open>-1\<close>, its weight is negative and so
  is the sum.  In both cases the sum is not zero, so the division does not divide by zero,
  the vector passed to \<^verbatim>\<open>R.choice\<close> (by both classes) is \<open>seed_probabilities\<close>, it is
  non-negative and sums to 1, and \<^verbatim>\<open>R.choice\<close> does not reject it.
\<close>

theorem weighted_pick_well_defined:
  assumes wf: "wf_array m" and pos: "list_ex (\<lambda>v. v > 0) (flat m)"
    and nov: "\<not> overflows (seed_distances distance_transform_cdt m)"
  shows
   "(if list_ex (\<lambda>v. v = 0) (flat m)
     then list_all (\<lambda>x. 1 \<le> x) (seed_distances distance_transform_cdt m)
          \<and> list_all (\<lambda>x. 0 < x) (seed_weights distance_transform_cdt m)
          \<and> 0 < sum_list (seed_weights distance_transform_cdt m)
     else list_all (\<lambda>x. x = - 1) (seed_distances distance_transform_cdt m)
          \<and> list_all (\<lambda>x. x < 0) (seed_weights distance_transform_cdt m)
          \<and> sum_list (seed_weights distance_transform_cdt m) < 0)
    \<and> sum_list (seed_weights distance_transform_cdt m) \<noteq> 0
    \<and> list_all (\<lambda>x. 0 \<le> x) (seed_probabilities distance_transform_cdt m)
    \<and> sum_list (seed_probabilities distance_transform_cdt m) = 1
    \<and> fst (choice rs (positive_indices m) (seed_probabilities distance_transform_cdt m))
          \<noteq> Inl ValueError
    \<and> arg_find_guidance distance_transform_cdt rs m None =
         (case choice rs (positive_indices m) (seed_probabilities distance_transform_cdt m) of
            (Inl e, rs') \<Rightarrow> (Inl e, rs')
          | (Inr seed, rs') \<Rightarrow>
              (case unravel_index seed (shape m) of
                 Inl e \<Rightarrow> (Inl e, rs')
               | Inr [] \<Rightarrow> (Inl IndexError, rs')
               | Inr (g0 # g) \<Rightarrow>
                   (Inr (Some (flat (distance_transform_cdt m) ! seed # map real g)), rs')))
    \<and> pnc_find_guidance distance_transform_cdt rs m None
          = arg_find_guidance distance_transform_cdt rs m None"
proof -
  let ?d = "seed_distances distance_transform_cdt m"
  let ?w = "seed_weights distance_transform_cdt m"
  let ?p = "seed_probabilities distance_transform_cdt m"
  from pos have ne: "positive_indices m \<noteq> []"
    by (simp add: positive_indices_empty list_ex_iff)
  then have wne: "?w \<noteq> []" by (simp add: seed_weights_def)
  have ww: "?w = map (\<lambda>x. exp x - 1) ?d" by (rule seed_weights_distances)
  have signs: "if list_ex (\<lambda>v. v = 0) (flat m)
     then list_all (\<lambda>x. 1 \<le> x) ?d \<and> list_all (\<lambda>x. 0 < x) ?w \<and> 0 < sum_list ?w
     else list_all (\<lambda>x. x = - 1) ?d \<and> list_all (\<lambda>x. x < 0) ?w \<and> sum_list ?w < 0"
  proof (cases "list_ex (\<lambda>v. v = 0) (flat m)")
    case True
    from seed_distances_foreground [OF wf True] have d: "\<forall>x\<in>set ?d. 1 \<le> x" .
    then have w: "\<forall>x\<in>set ?w. 0 < x" unfolding ww by auto
    from sum_list_positive [OF wne w] d w True show ?thesis by (simp add: list_all_iff)
  next
    case False
    from seed_distances_no_background [OF False] have d: "\<forall>x\<in>set ?d. x = - 1" .
    then have w: "\<forall>x\<in>set ?w. x < 0" unfolding ww by auto
    from sum_list_negative [OF wne w] d w False show ?thesis by (simp add: list_all_iff)
  qed
  then have s0: "sum_list ?w \<noteq> 0" by (auto split: if_splits)
  have pn: "list_all (\<lambda>x. 0 \<le> x) ?p"
  proof (cases "list_ex (\<lambda>v. v = 0) (flat m)")
    case True
    with signs have "\<forall>x\<in>set ?w. 0 < x" "0 < sum_list ?w" by (simp_all add: list_all_iff)
    then show ?thesis
      by (auto simp: seed_probabilities_def list_all_iff intro!: divide_nonneg_pos less_imp_le)
  next
    case False
    with signs have "\<forall>x\<in>set ?w. x < 0" "sum_list ?w < 0" by (simp_all add: list_all_iff)
    then show ?thesis
      by (auto simp: seed_probabilities_def list_all_iff intro!: divide_neg_neg less_imp_le)
  qed
  have p1: "sum_list ?p = 1" using s0 by (rule seed_probabilities_sum)
  have lp: "length ?p = length (positive_indices m)"
    by (simp add: seed_probabilities_def seed_weights_def)
  have nneg: "\<not> list_ex (\<lambda>x. x < 0) ?p"
    using pn by (auto simp: list_all_iff list_ex_iff not_less)
  have cv: "fst (choice rs (positive_indices m) ?p) \<noteq> Inl ValueError"
    using ne lp nneg p1 by (simp add: choice_def)
  have fg: "arg_find_guidance distance_transform_cdt rs m None =
         (case choice rs (positive_indices m) ?p of
            (Inl e, rs') \<Rightarrow> (Inl e, rs')
          | (Inr seed, rs') \<Rightarrow>
              (case unravel_index seed (shape m) of
                 Inl e \<Rightarrow> (Inl e, rs')
               | Inr [] \<Rightarrow> (Inl IndexError, rs')
               | Inr (g0 # g) \<Rightarrow>
                   (Inr (Some (flat (distance_transform_cdt m) ! seed # map real g)), rs')))"
    using arg_find_guidance_none [of distance_transform_cdt m rs, OF cdt_flat_length] ne nov s0
    by simp
  show ?thesis
    by (intro conjI signs s0 pn p1 cv fg pnc_find_guidance_arg)
qed

lemma all_positive_mask_idx: "positive_indices all_positive_mask = [0, 1]"
  by (simp add: all_positive_mask_def positive_indices_def upt_conv_Cons)

lemma all_positive_mask_distances:
  "seed_distances distance_transform_cdt all_positive_mask = [- 1, - 1]"
  by (simp add: seed_distances_def all_positive_mask_idx)
     (simp add: all_positive_mask_def distance_transform_cdt_def)

lemma all_positive_mask_weights:
  "seed_weights distance_transform_cdt all_positive_mask = [exp (- 1) - 1, exp (- 1) - 1]"
  by (simp add: seed_weights_distances all_positive_mask_distances)

lemma not_overflows_minus_one: "\<not> overflows [- 1, - 1]"
proof -
  have "exp (- 1 :: real) < 1" by simp
  then have "exp (- 1 :: real) - 1 + (exp (- 1) - 1) \<le> 100" by linarith
  with dbl_max_large have "exp (- 1 :: real) - 1 + (exp (- 1) - 1) \<le> dbl_max" by linarith
  then show ?thesis by (simp add: overflows_def exp_max_arg_def not_less)
qed

lemma example_mask_distances:
  "seed_distances distance_transform_cdt example_mask = [2, 1]"
  by (simp add: seed_distances_def example_mask_idx example_mask_cdt)

theorem weighted_pick_well_defined_witness:
  "wf_array example_mask \<and> list_ex (\<lambda>v. v > 0) (flat example_mask)
   \<and> \<not> overflows (seed_distances distance_transform_cdt example_mask)
   \<and> list_ex (\<lambda>v. v = 0) (flat example_mask)
   \<and> seed_distances distance_transform_cdt example_mask = [2, 1]
   \<and> 0 < sum_list (seed_weights distance_transform_cdt example_mask)
   \<and> list_all (\<lambda>x. 0 \<le> x) (seed_probabilities distance_transform_cdt example_mask)
   \<and> sum_list (seed_probabilities distance_transform_cdt example_mask) = 1
   \<and> wf_array all_positive_mask \<and> list_ex (\<lambda>v. v > 0) (flat all_positive_mask)
   \<and> \<not> overflows (seed_distances distance_transform_cdt all_positive_mask)
   \<and> \<not> list_ex (\<lambda>v. v = 0) (flat all_positive_mask)
   \<and> seed_distances distance_transform_cdt all_positive_mask = [- 1, - 1]
   \<and> sum_list (seed_weights distance_transform_cdt all_positive_mask) < 0
   \<and> list_all (\<lambda>x. 0 \<le> x) (seed_probabilities distance_transform_cdt all_positive_mask)
   \<and> sum_list (seed_probabilities distance_transform_cdt all_positive_mask) = 1"
proof -
  have a1: "wf_array example_mask" by (simp add: example_mask_def wf_array_def)
  have a2: "list_ex (\<lambda>v. v > 0) (flat example_mask)" by (simp add: example_mask_def)
  have a3: "\<not> overflows (seed_distances distance_transform_cdt example_mask)"
    by (simp only: example_mask_distances not_overflows_two_one not_False_eq_True)
  have a4: "list_ex (\<lambda>v. v = 0) (flat example_mask)" by (simp add: example_mask_def)
  have b1: "wf_array all_positive_mask" by (simp add: all_positive_mask_def wf_array_def)
  have b2: "list_ex (\<lambda>v. v > 0) (flat all_positive_mask)" by (simp add: all_positive_mask_def)
  have b3: "\<not> overflows (seed_distances distance_transform_cdt all_positive_mask)"
    by (simp only: all_positive_mask_distances not_overflows_minus_one not_False_eq_True)
  have b4: "\<not> list_ex (\<lambda>v. v = 0) (flat all_positive_mask)" by (simp add: all_positive_mask_def)
  note a = weighted_pick_well_defined [OF a1 a2 a3, of "\<lambda>n. 0"]
  note b = weighted_pick_well_defined [OF b1 b2 b3, of "\<lambda>n. 0"]
  from a a4 have a5: "0 < sum_list (seed_weights distance_transform_cdt example_mask)"
    and a6: "list_all (\<lambda>x. 0 \<le> x) (seed_probabilities distance_transform_cdt example_mask)"
    and a7: "sum_list (seed_probabilities distance_transform_cdt example_mask) = 1"
    by simp_all
  from b b4 have b5: "sum_list (seed_weights distance_transform_cdt all_positive_mask) < 0"
    and b6: "list_all (\<lambda>x. 0 \<le> x) (seed_probabilities distance_transform_cdt all_positive_mask)"
    and b7: "sum_list (seed_probabilities distance_transform_cdt all_positive_mask) = 1"
    by simp_all
  show ?thesis
    by (intro conjI a1 a2 a3 a4 example_mask_distances a5 a6 a7
        b1 b2 b3 b4 all_positive_mask_distances b5 b6 b7)
qed

text \<open>
  Claim C3 does not hold for every mask with a positive voxel.  In \<open>all_positive_mask\<close>
  no voxel is zero: the distance transform leaves \<open>-1\<close> everywhere, so the chamfer distance
  of the positive voxels is not at least 1, their weights \<open>exp(-1) - 1\<close> are negative and
  the sum of the weights is not positive.
\<close>

theorem weighted_pick_counterexample:
  "flat all_positive_mask ! 0 > 0
   \<and> positive_indices all_positive_mask = [0, 1]
   \<and> seed_distances distance_transform_cdt all_positive_mask = [- 1, - 1]
   \<and> \<not> 1 \<le> seed_distances distance_transform_cdt all_positive_mask ! 0
   \<and> \<not> 0 < sum_list (seed_weights distance_transform_cdt all_positive_mask)"
proof -
  have "exp (- 1 :: real) < 1" by simp
  then have "\<not> 0 < sum_list (seed_weights distance_transform_cdt all_positive_mask)"
    unfolding all_positive_mask_weights sum_list.Cons sum_list.Nil by linarith
  moreover have "flat all_positive_mask ! 0 > 0" by (simp add: all_positive_mask_def)
  moreover have "\<not> 1 \<le> seed_distances distance_transform_cdt all_positive_mask ! 0"
    by (simp add: all_positive_mask_distances)
  ultimately show ?thesis
    using all_positive_mask_idx all_positive_mask_distances by (intro conjI)
qed

section \<open>The point the sampler returns\<close>

lemma choice_member: "choice rs a p = (Inr x, rs') \<Longrightarrow> x \<in> set a"
  by (auto simp: choice_def split: if_splits)

lemma unravel_bounds: "i < prod_list s \<Longrightarrow> list_all2 (\<lambda>c n. c < n) (unravel i s) s"
proof (induction s arbitrary: i)
  case Nil
  then show ?case by simp
next
  case (Cons n ns)
  then have pos: "0 < prod_list ns" by (cases "prod_list ns = 0") auto
  then have "i mod prod_list ns < prod_list ns" by simp
  from Cons.IH [OF this] have "list_all2 (\<lambda>c n. c < n) (unravel (i mod prod_list ns) ns) ns" .
  moreover have "i div prod_list ns < n"
    using Cons.prems pos by (simp add: less_mult_imp_div_less mult.commute)
  ultimately show ?case by simp
qed

lemma arg_find_guidance_Some:
  assumes eq: "arg_find_guidance cdt rs m wmap = (Inr (Some g), rs')"
  shows "\<exists>wd seed g0 gs.
           (case wmap of
              Some w \<Rightarrow> map_sum id flat (bind_err (as_ndarray w) (np_multiply (cdt m)))
            | None \<Rightarrow> Inr (flat (cdt m))) = Inr wd
         \<and> seed \<in> set (positive_indices m)
         \<and> unravel_index seed (shape m) = Inr (g0 # gs)
         \<and> g = wd ! seed # map real gs"
proof -
  let ?wdr = "case wmap of
              Some w \<Rightarrow> map_sum id flat (bind_err (as_ndarray w) (np_multiply (cdt m)))
            | None \<Rightarrow> Inr (flat (cdt m))"
  obtain wd where wd: "?wdr = Inr wd"
    using eq by (cases ?wdr) (simp_all add: arg_find_guidance_def Let_def)
  have idx: "filter (\<lambda>i. flat m ! i > 0) [0..<length (flat m)] = positive_indices m"
    by (simp add: positive_indices_def)
  from eq wd obtain seed g0 gs where
    c: "choice rs (positive_indices m)
       (map (\<lambda>i. map (\<lambda>x. exp x - 1) wd ! i
                  / sum_list (map ((!) (map (\<lambda>x. exp x - 1) wd)) (positive_indices m)))
            (positive_indices m)) = (Inr seed, rs')"
    and u: "unravel_index seed (shape m) = Inr (g0 # gs)" and g: "g = wd ! seed # map real gs"
    unfolding arg_find_guidance_def Let_def idx
    by (auto split: if_splits prod.splits sum.splits list.splits)
  from choice_member [OF c] have "seed \<in> set (positive_indices m)" .
  with wd u g show ?thesis by (intro exI conjI)
qed

text \<open>
  Claim C2, without the first component.  When \<^verbatim>\<open>find_guidance\<close> returns a list for a
  well-formed mask (with or without a weight map), there is a voxel \<open>seed\<close> of the mask
  with a positive value such that the list has one component per axis, its components
  after the first are the components after the first of the unravelled index of
  \<open>seed\<close>, each a valid index of its axis, and its first component is not an index but
  the weighted distance of \<open>seed\<close> (\<^verbatim>\<open>g[0] = dst[0]\<close>): the distance itself without a
  weight map, the product of distance and weight map with one.
\<close>

theorem find_guidance_point:
  assumes wf: "wf_array m" and eq: "arg_find_guidance cdt rs m wmap = (Inr (Some g), rs')"
  shows "\<exists>seed wd. seed < length (flat m) \<and> flat m ! seed > 0
          \<and> (case wmap of
                Some w \<Rightarrow> map_sum id flat (bind_err (as_ndarray w) (np_multiply (cdt m)))
              | None \<Rightarrow> Inr (flat (cdt m))) = Inr wd
          \<and> g = wd ! seed # map real (tl (unravel seed (shape m)))
          \<and> length g = length (shape m)
          \<and> list_all2 (\<lambda>c n. c < n) (unravel seed (shape m)) (shape m)"
proof -
  from arg_find_guidance_Some [OF eq] obtain wd seed g0 gs where
    wd: "(case wmap of
              Some w \<Rightarrow> map_sum id flat (bind_err (as_ndarray w) (np_multiply (cdt m)))
            | None \<Rightarrow> Inr (flat (cdt m))) = Inr wd"
    and s: "seed \<in> set (positive_indices m)"
    and u: "unravel_index seed (shape m) = Inr (g0 # gs)"
    and g: "g = wd ! seed # map real gs" by blast
  from positive_indices_bound [OF s] have b: "seed < length (flat m)" "flat m ! seed > 0"
    by simp_all
  from u have un: "unravel seed (shape m) = g0 # gs" and sp: "seed < prod_list (shape m)"
    by (simp_all add: unravel_index_def split: if_splits)
  have l: "length g = length (shape m)"
    using g un length_unravel [of seed "shape m"] by simp
  have t: "g = wd ! seed # map real (tl (unravel seed (shape m)))" using g un by simp
  from b wd t l unravel_bounds [OF sp] show ?thesis by (intro exI conjI)
qed

lemma single_voxel_mask_guidance:
  "fst (arg_find_guidance distance_transform_cdt (\<lambda>n. 0) single_voxel_mask None)
     = Inr (Some [1, 0])"
  unfolding single_voxel_mask_def by (rule arg_find_guidance_example)

theorem find_guidance_point_witness:
  "wf_array single_voxel_mask
   \<and> fst (arg_find_guidance distance_transform_cdt (\<lambda>n. 0) single_voxel_mask None)
        = Inr (Some [1, 0])
   \<and> (\<exists>seed. seed < length (flat single_voxel_mask) \<and> flat single_voxel_mask ! seed > 0
          \<and> [1, 0] = flat (distance_transform_cdt single_voxel_mask) ! seed
                       # map real (tl (unravel seed (shape single_voxel_mask))))"
proof -
  have wf: "wf_array single_voxel_mask" by (simp add: single_voxel_mask_def wf_array_def)
  have eq: "arg_find_guidance distance_transform_cdt (\<lambda>n. 0) single_voxel_mask None
     = (Inr (Some [1, 0]), snd (arg_find_guidance distance_transform_cdt (\<lambda>n. 0) single_voxel_mask None))"
    using single_voxel_mask_guidance by (metis prod.collapse)
  from find_guidance_point [OF wf eq] obtain seed wd where
    "seed < length (flat single_voxel_mask)" "flat single_voxel_mask ! seed > 0"
    "Inr (flat (distance_transform_cdt single_voxel_mask)) = (Inr wd :: error + real list)"
    "[1, 0] = wd ! seed # map real (tl (unravel seed (shape single_voxel_mask)))"
    by auto
  then have "\<exists>seed. seed < length (flat single_voxel_mask) \<and> flat single_voxel_mask ! seed > 0
          \<and> [1, 0] = flat (distance_transform_cdt single_voxel_mask) ! seed
                       # map real (tl (unravel seed (shape single_voxel_mask)))"
    by auto
  with wf single_voxel_mask_guidance show ?thesis by (intro conjI)
qed

text \<open>
  Claim C2 does not hold for the first component.  The only positive voxel of
  \<open>single_voxel_mask\<close> has flat index 0 and unravelled index \<open>[0, 0]\<close>; the list returned
  for it is \<open>[1, 0]\<close>, with the chamfer distance 1 of the voxel in the place of its index
  along the first axis.
\<close>

theorem find_guidance_point_counterexample:
  "positive_indices single_voxel_mask = [0]
   \<and> unravel_index 0 (shape single_voxel_mask) = Inr [0, 0]
   \<and> fst (arg_find_guidance distance_transform_cdt (\<lambda>n. 0) single_voxel_mask None)
        = Inr (Some [1, 0])
   \<and> fst (arg_find_guidance distance_transform_cdt (\<lambda>n. 0) single_voxel_mask None)
        \<noteq> Inr (Some (map real [0, 0]))"
proof -
  have a: "positive_indices single_voxel_mask = [0]"
    by (simp add: single_voxel_mask_def positive_indices_def upt_conv_Cons)
  have b: "unravel_index 0 (shape single_voxel_mask) = Inr [0, 0]"
    by (simp add: single_voxel_mask_def unravel_index_def)
  have c: "fst (arg_find_guidance distance_transform_cdt (\<lambda>n. 0) single_voxel_mask None)
        \<noteq> Inr (Some (map real [0, 0]))"
    by (simp add: single_voxel_mask_guidance)
  from a b single_voxel_mask_guidance c show ?thesis by (intro conjI)
qed

section \<open>The flags of the guidance transforms between calls\<close>










































section \<open>One kind of point for each call\<close>













end
